theory Spec2Isabelle
  imports Complex_Main
begin

text \<open>
  A shallow embedding of \<open>src/rwlockfile.ts\<close>, a read/write lock that processes share
  through a JSON record on disk. Every method of the class \<open>RWLockfile\<close> becomes a function
  that is given what the method reads (the environment, the handle, the file system) and
  returns what the method leaves; an exception is a value of the result.

  Outside the model: the decorators \<open>@lockfile('internal')\<close> and \<open>@onceAtATime\<close>, whose
  files are not among the sources (the first runs the method while it holds a lower-level
  lock file, the second lets concurrent callers share one call in flight), so that a call
  is its body, run as a whole; the debug output; the registry of instances with its exit
  handler; and \<open>path.resolve\<close>, taken to leave the base path as it is. A call into the
  file system fails only where the text below says so.

  Names are those of the source, a leading underscore dropped (\<open>_lock\<close> is \<open>lock\<close>).
  Where the name is taken another is used: the getter \<open>file\<close> is \<open>file_path\<close>, the
  field \<open>uuid\<close> of the class is \<open>this_uuid\<close>, \<open>process.pid\<close> is \<open>process_pid\<close>,
  \<open>random\<close> is \<open>random_floor\<close>, \<open>fs.remove\<close> is \<open>remove_file\<close>, and the flag \<open>ran\<close>
  of \<open>once\<close> is \<open>fired\<close>.
\<close>

section \<open>Data model of rwlockfile.ts\<close>

text \<open>
  A \<open>Job\<close> is one lock claim, as the interface \<open>Job\<close> declares it. The creation date is
  kept as its millisecond timestamp.
\<close>

record Job =
  uuid :: string
  pid :: int
  reason :: "string option"
  created :: nat

text \<open>The in-memory record \<open>RWLockfileJSON\<close>: an optional writer and the list of readers.\<close>

record RWLockfileJSON =
  version :: string
  writer :: "Job option"
  readers :: "Job list"

text \<open>
  What the JSON file holds for a job and for the record. On disk the creation date is a
  string (or is missing, \<open>None\<close>); an ISO string is identified with its timestamp.
\<close>

record JobData =
  d_uuid :: string
  d_pid :: int
  d_reason :: "string option"
  d_created :: "nat option"

record FileData =
  d_version :: string
  d_writer :: "JobData option"
  d_readers :: "JobData list"

text \<open>
  A file either holds a well-shaped JSON record or anything else (\<open>Garbage\<close>: text that
  does not parse, or JSON of another shape). The file system maps a path to the contents
  of the file there, \<open>None\<close> when there is no file.
\<close>

datatype contents = Garbage | Json FileData

type_synonym filesystem = "string \<Rightarrow> contents option"

datatype RWLockType = Read | Write

text \<open>The three shapes of \<open>Status\<close>, each with the lock file's path.\<close>

datatype Status =
    Open string
  | Write_lock Job string
  | Read_lock "Job list" string

text \<open>
  Modelled from the spec: the class \<open>RWLockfileError\<close> of errors.ts is not among the
  sources. It carries the last observed blocking status and its code is \<open>ELOCK\<close>
  (the loop of \<open>_lock\<close> tests \<open>err.code !== 'ELOCK'\<close>). \<open>ENOENT\<close> is the file system's
  error for a missing file, \<open>Failure\<close> any other error.
\<close>

datatype error =
    RWLockfileError Status
  | ENOENT
  | Failure string

fun code :: "error \<Rightarrow> string" where
  "code (RWLockfileError s) = ''ELOCK''"
| "code ENOENT = ''ENOENT''"
| "code (Failure m) = ''''"

text \<open>The hook \<open>IfLockedFn\<close>: it is handed a status and returns, or throws (\<open>Some\<close>).\<close>

type_synonym IfLockedFn = "Status \<Rightarrow> error option"

text \<open>
  A handle, the class \<open>RWLockfile\<close>. \<open>count_read\<close> and \<open>count_write\<close> are the two fields of
  \<open>_count\<close>; \<open>process_pid\<close> is \<open>process.pid\<close> of the process the handle lives in.
\<close>

record RWLockfile =
  base :: string
  ifLocked :: IfLockedFn
  timeout :: real
  retryInterval :: real
  this_uuid :: string
  count_read :: nat
  count_write :: nat
  process_pid :: int

text \<open>
  What the code reads from outside itself: the package version, the two process
  liveness tests of \<open>is-process-active\<close> (\<open>Inl\<close> when the test throws) and the clock.
\<close>

record Env =
  pkg_version :: string
  isProcessActive_isActive :: "int \<Rightarrow> error + bool"
  isProcessActive_isActiveSync :: "int \<Rightarrow> error + bool"
  now :: nat

fun count :: "RWLockfile \<Rightarrow> RWLockType \<Rightarrow> nat" where
  "count h Read = count_read h"
| "count h Write = count_write h"

fun set_count :: "RWLockfile \<Rightarrow> RWLockType \<Rightarrow> nat \<Rightarrow> RWLockfile" where
  "set_count h Read n = h\<lparr>count_read := n\<rparr>"
| "set_count h Write n = h\<lparr>count_write := n\<rparr>"

definition file_path :: "RWLockfile \<Rightarrow> string" where
  "file_path h = base h @ ''.lock''"

section \<open>The file store\<close>

text \<open>
  The calls into \<open>fs-extra\<close>. \<open>readJSON\<close> throws on a missing file and on contents that do
  not parse; \<open>remove\<close> accepts a missing file, \<open>unlinkSync\<close> throws \<open>ENOENT\<close> on it;
  \<open>outputJSON\<close> replaces the contents. The synchronous calls read and write as the
  asynchronous ones do.
\<close>

definition readJSON :: "filesystem \<Rightarrow> string \<Rightarrow> error + FileData" where
  "readJSON fs path =
     (case fs path of
        None \<Rightarrow> Inl ENOENT
      | Some Garbage \<Rightarrow> Inl (Failure ''unreadable'')
      | Some (Json d) \<Rightarrow> Inr d)"

definition remove_file :: "filesystem \<Rightarrow> string \<Rightarrow> filesystem" where
  "remove_file fs path = fs(path := None)"

definition unlinkSync :: "filesystem \<Rightarrow> string \<Rightarrow> error + filesystem" where
  "unlinkSync fs path =
     (case fs path of None \<Rightarrow> Inl ENOENT | Some c \<Rightarrow> Inr (fs(path := None)))"

definition outputJSON :: "filesystem \<Rightarrow> string \<Rightarrow> FileData \<Rightarrow> filesystem" where
  "outputJSON fs path d = fs(path := Some (Json d))"

text \<open>\<open>_parseFile\<close> and \<open>_stringifyFile\<close>, each with its local \<open>addDate\<close>.\<close>

definition parse_addDate :: "JobData \<Rightarrow> Job" where
  "parse_addDate job =
     \<lparr>uuid = d_uuid job, pid = d_pid job, reason = d_reason job,
      created = (case d_created job of None \<Rightarrow> 0 | Some t \<Rightarrow> t)\<rparr>"

definition parseFile :: "FileData \<Rightarrow> RWLockfileJSON" where
  "parseFile input =
     \<lparr>version = d_version input,
      writer = map_option parse_addDate (d_writer input),
      readers = map parse_addDate (d_readers input)\<rparr>"

definition stringify_addDate :: "Job \<Rightarrow> JobData" where
  "stringify_addDate job =
     \<lparr>d_uuid = uuid job, d_pid = pid job, d_reason = reason job,
      d_created = Some (created job)\<rparr>"

definition stringifyFile :: "RWLockfileJSON \<Rightarrow> FileData" where
  "stringifyFile input =
     \<lparr>d_version = version input,
      d_writer = map_option stringify_addDate (writer input),
      d_readers = map stringify_addDate (readers input)\<rparr>"

definition fetchFile :: "Env \<Rightarrow> RWLockfile \<Rightarrow> filesystem \<Rightarrow> RWLockfileJSON" where
  "fetchFile env h fs =
     (case readJSON fs (file_path h) of
        Inr f \<Rightarrow> parseFile f
      | Inl err \<Rightarrow> \<lparr>version = pkg_version env, writer = None, readers = []\<rparr>)"

definition fetchFileSync :: "Env \<Rightarrow> RWLockfile \<Rightarrow> filesystem \<Rightarrow> RWLockfileJSON" where
  "fetchFileSync env h fs =
     (case readJSON fs (file_path h) of
        Inr f \<Rightarrow> parseFile f
      | Inl err \<Rightarrow> \<lparr>version = pkg_version env, writer = None, readers = []\<rparr>)"

definition writeFile :: "RWLockfile \<Rightarrow> RWLockfileJSON \<Rightarrow> filesystem \<Rightarrow> filesystem" where
  "writeFile h f fs =
     (if writer f = None \<and> readers f = [] then remove_file fs (file_path h)
      else outputJSON fs (file_path h) (stringifyFile f))"

definition writeFileSync ::
  "RWLockfile \<Rightarrow> RWLockfileJSON \<Rightarrow> filesystem \<Rightarrow> error + filesystem" where
  "writeFileSync h f fs =
     (if writer f = None \<and> readers f = [] then
        (case unlinkSync fs (file_path h) of
           Inr fs' \<Rightarrow> Inr fs'
         | Inl err \<Rightarrow> if code err \<noteq> ''ENOENT'' then Inl err else Inr fs)
      else Inr (outputJSON fs (file_path h) (stringifyFile f)))"

section \<open>Status classification\<close>

definition isActive :: "Env \<Rightarrow> int \<Rightarrow> bool" where
  "isActive env p = (case isProcessActive_isActive env p of Inr b \<Rightarrow> b | Inl err \<Rightarrow> False)"

definition isActiveSync :: "Env \<Rightarrow> int \<Rightarrow> bool" where
  "isActiveSync env p =
     (case isProcessActive_isActiveSync env p of Inr b \<Rightarrow> b | Inl err \<Rightarrow> False)"

definition statusFromFile :: "RWLockfile \<Rightarrow> RWLockType \<Rightarrow> RWLockfileJSON \<Rightarrow> Status" where
  "statusFromFile h type f =
     (if type = Write \<and> count h Write \<noteq> 0 then Open (file_path h)
      else if type = Read \<and> count h Write \<noteq> 0 then Open (file_path h)
      else (case writer f of
              Some w \<Rightarrow> Write_lock w (file_path h)
            | None \<Rightarrow>
                if type = Write \<and> readers f \<noteq> [] then Read_lock (readers f) (file_path h)
                else Open (file_path h)))"

text \<open>
  The two purges of \<open>check\<close>. In the asynchronous \<open>check\<close> every job is mapped to its
  process id when the process is not active and to \<open>undefined\<close> (\<open>None\<close>) otherwise, and
  the list is then filtered by truthiness (\<open>p => !!p\<close>), which also drops the number 0.
\<close>

definition truthy_pid :: "int option \<Rightarrow> bool" where
  "truthy_pid p = (case p of None \<Rightarrow> False | Some n \<Rightarrow> n \<noteq> 0)"

definition inactive_pids :: "Env \<Rightarrow> Job list \<Rightarrow> int option list" where
  "inactive_pids env jobs =
     filter truthy_pid (map (\<lambda>j. if \<not> isActive env (pid j) then Some (pid j) else None) jobs)"

definition inactive_pidsSync :: "Env \<Rightarrow> Job list \<Rightarrow> int list" where
  "inactive_pidsSync env jobs = filter (\<lambda>p. \<not> isActiveSync env p) (map pid jobs)"

text \<open>The number of jobs a record holds: what every restart of \<open>check\<close> decreases.\<close>

definition jobs_held :: "RWLockfileJSON \<Rightarrow> nat" where
  "jobs_held f = (case writer f of None \<Rightarrow> 0 | Some w \<Rightarrow> 1) + length (readers f)"

lemma parse_stringify_job: "parse_addDate (stringify_addDate j) = j"
  by (simp add: parse_addDate_def stringify_addDate_def)

lemma parse_stringify: "parseFile (stringifyFile f) = f"
  by (cases "writer f")
     (simp_all add: parseFile_def stringifyFile_def comp_def parse_stringify_job)

lemma fetch_write:
  "fetchFile env h (writeFile h f fs) =
     (if writer f = None \<and> readers f = []
      then \<lparr>version = pkg_version env, writer = None, readers = []\<rparr> else f)"
  by (simp add: fetchFile_def writeFile_def readJSON_def remove_file_def outputJSON_def
      parse_stringify)

lemma jobs_held_fetch_write:
  "jobs_held (fetchFile env h (writeFile h f fs)) = jobs_held f"
  by (simp add: fetch_write jobs_held_def)

lemma statusFromFile_Write_lock:
  "statusFromFile h type f = Write_lock j p \<Longrightarrow> writer f = Some j"
  by (auto simp: statusFromFile_def split: if_splits option.splits)

lemma statusFromFile_Read_lock:
  "statusFromFile h type f = Read_lock js p \<Longrightarrow> writer f = None \<and> js = readers f"
  by (auto simp: statusFromFile_def split: if_splits option.splits)

lemma inactive_pids_shrink:
  assumes "inactive_pids env js \<noteq> []"
  shows "length (filter (\<lambda>j. Some (pid j) \<notin> set (inactive_pids env js)) js) < length js"
proof -
  from assms obtain p where p: "p \<in> set (inactive_pids env js)"
    by (cases "inactive_pids env js") auto
  then obtain j where j: "j \<in> set js" "p = Some (pid j)"
    by (auto simp: inactive_pids_def truthy_pid_def split: if_splits)
  with p have "\<not> Some (pid j) \<notin> set (inactive_pids env js)"
    by simp
  with j(1) show ?thesis
    by (rule length_filter_less)
qed

function check :: "Env \<Rightarrow> RWLockfile \<Rightarrow> RWLockType \<Rightarrow> filesystem \<Rightarrow> Status \<times> filesystem" where
  "check env h type fs =
     (let f = fetchFile env h fs;
          status = statusFromFile h type f
      in case status of
           Open p \<Rightarrow> (status, fs)
         | Write_lock job p \<Rightarrow>
             if \<not> isActive env (pid job)
             then check env h type (writeFile h (f\<lparr>writer := None\<rparr>) fs)
             else (status, fs)
         | Read_lock jobs p \<Rightarrow>
             (let inactive = inactive_pids env jobs
              in if inactive \<noteq> []
                 then check env h type
                        (writeFile h
                           (f\<lparr>readers := filter (\<lambda>j. Some (pid j) \<notin> set inactive) (readers f)\<rparr>)
                           fs)
                 else if find (\<lambda>j. uuid j \<noteq> this_uuid h) jobs = None
                 then (Open (file_path h), fs)
                 else (status, fs)))"
  by pat_completeness auto

termination
proof (relation "measure (\<lambda>(env, h, type, fs). jobs_held (fetchFile env h fs))", goal_cases)
  case 1
  show ?case by simp
next
  case (2 env h type fs f status job p)
  then have "writer f = Some job"
    using statusFromFile_Write_lock by metis
  with 2 show ?case
    by (simp add: jobs_held_fetch_write) (simp add: jobs_held_def)
next
  case (3 env h type fs f status jobs p inactive)
  then have w: "writer f = None" and js: "jobs = readers f"
    using statusFromFile_Read_lock by metis+
  from 3 js have "length (filter (\<lambda>j. Some (pid j) \<notin> set inactive) (readers f)) < length (readers f)"
    using inactive_pids_shrink by simp
  with 3 w show ?case
    by (simp add: jobs_held_fetch_write) (simp add: jobs_held_def)
qed

declare check.simps [simp del]

lemma writeFileSync_eq: "writeFileSync h f fs = Inr (writeFile h f fs)"
  by (auto simp: writeFileSync_def writeFile_def unlinkSync_def remove_file_def
      split: option.splits)

lemma fetchFileSync_eq: "fetchFileSync env h fs = fetchFile env h fs"
  by (simp add: fetchFileSync_def fetchFile_def)

lemma inactive_pidsSync_shrink:
  assumes "inactive_pidsSync env js \<noteq> []"
  shows "length (filter (\<lambda>j. pid j \<notin> set (inactive_pidsSync env js)) js) < length js"
proof -
  from assms obtain p where p: "p \<in> set (inactive_pidsSync env js)"
    by (cases "inactive_pidsSync env js") auto
  then obtain j where j: "j \<in> set js" "p = pid j"
    by (auto simp: inactive_pidsSync_def)
  with p have "\<not> pid j \<notin> set (inactive_pidsSync env js)"
    by simp
  with j(1) show ?thesis
    by (rule length_filter_less)
qed

function checkSync ::
  "Env \<Rightarrow> RWLockfile \<Rightarrow> RWLockType \<Rightarrow> filesystem \<Rightarrow> (error + Status) \<times> filesystem" where
  "checkSync env h type fs =
     (let f = fetchFileSync env h fs;
          status = statusFromFile h type f
      in case status of
           Open p \<Rightarrow> (Inr status, fs)
         | Write_lock job p \<Rightarrow>
             if \<not> isActiveSync env (pid job)
             then (case writeFileSync h (f\<lparr>writer := None\<rparr>) fs of
                     Inl err \<Rightarrow> (Inl err, fs)
                   | Inr fs' \<Rightarrow> checkSync env h type fs')
             else (Inr status, fs)
         | Read_lock jobs p \<Rightarrow>
             (let inactive = inactive_pidsSync env jobs
              in if inactive \<noteq> []
                 then (case writeFileSync h
                              (f\<lparr>readers := filter (\<lambda>j. pid j \<notin> set inactive) (readers f)\<rparr>) fs of
                         Inl err \<Rightarrow> (Inl err, fs)
                       | Inr fs' \<Rightarrow> checkSync env h type fs')
                 else if find (\<lambda>j. uuid j \<noteq> this_uuid h) jobs = None
                 then (Inr (Open (file_path h)), fs)
                 else (Inr status, fs)))"
  by pat_completeness auto

termination
proof (relation "measure (\<lambda>(env, h, type, fs). jobs_held (fetchFile env h fs))", goal_cases)
  case 1
  show ?case by simp
next
  case (2 env h type fs f status job p fs')
  then have "writer f = Some job"
    using statusFromFile_Write_lock by metis
  moreover from 2 have "fs' = writeFile h (f\<lparr>writer := None\<rparr>) fs"
    by (simp add: writeFileSync_eq)
  moreover from 2 have "f = fetchFile env h fs"
    by (simp add: fetchFileSync_eq)
  ultimately show ?case
    by (simp add: jobs_held_fetch_write)
       (simp add: jobs_held_def)
next
  case (3 env h type fs f status jobs p inactive fs')
  then have w: "writer f = None" and js: "jobs = readers f"
    using statusFromFile_Read_lock by metis+
  from 3 js have "length (filter (\<lambda>j. pid j \<notin> set inactive) (readers f)) < length (readers f)"
    using inactive_pidsSync_shrink by simp
  moreover from 3 have
    "fs' = writeFile h (f\<lparr>readers := filter (\<lambda>j. pid j \<notin> set inactive) (readers f)\<rparr>) fs"
    by (simp add: writeFileSync_eq)
  moreover from 3 have "f = fetchFile env h fs"
    by (simp add: fetchFileSync_eq)
  ultimately show ?case using w
    by (simp add: jobs_held_fetch_write)
       (simp add: jobs_held_def)
qed

declare checkSync.simps [simp del]

section \<open>Granting and releasing\<close>

definition addJob ::
  "Env \<Rightarrow> RWLockfile \<Rightarrow> RWLockType \<Rightarrow> string option \<Rightarrow> RWLockfileJSON \<Rightarrow> RWLockfileJSON" where
  "addJob env h type rsn f =
     (let job = \<lparr>uuid = this_uuid h, pid = process_pid h, reason = rsn, created = now env\<rparr>
      in if type = Read then f\<lparr>readers := readers f @ [job]\<rparr>
         else f\<lparr>writer := Some job\<rparr>)"

definition removeJobFromFile :: "RWLockfile \<Rightarrow> RWLockType \<Rightarrow> RWLockfileJSON \<Rightarrow> RWLockfileJSON" where
  "removeJobFromFile h type f =
     (if type = Read then f\<lparr>readers := filter (\<lambda>r. uuid r \<noteq> this_uuid h) (readers f)\<rparr>
      else (case writer f of
              Some w \<Rightarrow> if uuid w = this_uuid h then f\<lparr>writer := None\<rparr> else f
            | None \<Rightarrow> f))"

definition removeJob :: "Env \<Rightarrow> RWLockfile \<Rightarrow> RWLockType \<Rightarrow> filesystem \<Rightarrow> filesystem" where
  "removeJob env h type fs =
     (let f = fetchFile env h fs;
          f' = removeJobFromFile h type f
      in writeFile h f' fs)"

definition removeJobSync ::
  "Env \<Rightarrow> RWLockfile \<Rightarrow> RWLockType \<Rightarrow> filesystem \<Rightarrow> error + filesystem" where
  "removeJobSync env h type fs =
     (let f = fetchFileSync env h fs;
          f' = removeJobFromFile h type f
      in writeFileSync h f' fs)"

text \<open>
  \<open>tryLock\<close> and \<open>_lockSync\<close> return the error thrown, if any, with the handle and the file
  system as the call leaves them: a purge made by \<open>check\<close> stays when the call throws.
\<close>

definition tryLock ::
  "Env \<Rightarrow> RWLockfile \<Rightarrow> RWLockType \<Rightarrow> string option \<Rightarrow> bool \<Rightarrow> filesystem
     \<Rightarrow> error option \<times> RWLockfile \<times> filesystem" where
  "tryLock env h type rsn inc fs =
     (if count h type \<noteq> 0
      then (None, if inc then set_count h type (count h type + 1) else h, fs)
      else
        (let (status, fs1) = check env h type fs
         in case status of
              Open p \<Rightarrow>
                (let f = fetchFile env h fs1;
                     f' = addJob env h type rsn f;
                     fs2 = writeFile h f' fs1
                 in (None, if inc then set_count h type (count h type + 1) else h, fs2))
            | _ \<Rightarrow> (Some (RWLockfileError status), h, fs1)))"

definition lockSync ::
  "Env \<Rightarrow> RWLockfile \<Rightarrow> RWLockType \<Rightarrow> string option \<Rightarrow> filesystem
     \<Rightarrow> error option \<times> RWLockfile \<times> filesystem" where
  "lockSync env h type rsn fs =
     (if count h type \<noteq> 0
      then (None, set_count h type (count h type + 1), fs)
      else
        (case checkSync env h type fs of
           (Inl err, fs1) \<Rightarrow> (Some err, h, fs1)
         | (Inr status, fs1) \<Rightarrow>
             (case status of
                Open p \<Rightarrow>
                  (let f = fetchFileSync env h fs1;
                       f' = addJob env h type rsn f
                   in case writeFileSync h f' fs1 of
                        Inl err \<Rightarrow> (Some err, h, fs1)
                      | Inr fs2 \<Rightarrow> (None, set_count h type (count h type + 1), fs2))
              | _ \<Rightarrow> (Some (RWLockfileError status), h, fs1))))"

definition addSync ::
  "Env \<Rightarrow> RWLockfile \<Rightarrow> RWLockType \<Rightarrow> string option \<Rightarrow> filesystem
     \<Rightarrow> error option \<times> RWLockfile \<times> filesystem" where
  "addSync env h type rsn fs = lockSync env h type rsn fs"

text \<open>
  \<open>unlock\<close> and \<open>unlockSync\<close>: with no type, both types in turn (read first in \<open>unlock\<close>,
  write first in \<open>unlockSync\<close>); with a type, nothing when the counter is 0.
\<close>

function unlock ::
  "Env \<Rightarrow> RWLockfile \<Rightarrow> RWLockType option \<Rightarrow> filesystem \<Rightarrow> RWLockfile \<times> filesystem" where
  "unlock env h None fs =
     (let (h1, fs1) = unlock env h (Some Read) fs
      in unlock env h1 (Some Write) fs1)"
| "unlock env h (Some type) fs =
     (if count h type = 0 then (h, fs)
      else (let fs' = removeJob env h type fs
            in (set_count h type 0, fs')))"
  by pat_completeness auto

termination
  by (relation "measure (\<lambda>(env, h, t, fs). case t of None \<Rightarrow> 1 | Some x \<Rightarrow> 0)") auto

function unlockSync ::
  "Env \<Rightarrow> RWLockfile \<Rightarrow> RWLockType option \<Rightarrow> filesystem
     \<Rightarrow> error option \<times> RWLockfile \<times> filesystem" where
  "unlockSync env h None fs =
     (case unlockSync env h (Some Write) fs of
        (Some err, h1, fs1) \<Rightarrow> (Some err, h1, fs1)
      | (None, h1, fs1) \<Rightarrow> unlockSync env h1 (Some Read) fs1)"
| "unlockSync env h (Some type) fs =
     (if count h type = 0 then (None, h, fs)
      else (case removeJobSync env h type fs of
              Inl err \<Rightarrow> (Some err, h, fs)
            | Inr fs' \<Rightarrow> (None, set_count h type 0, fs')))"
  by pat_completeness auto

termination
  by (relation "measure (\<lambda>(env, h, t, fs). case t of None \<Rightarrow> 1 | Some x \<Rightarrow> 0)") auto

definition remove :: "Env \<Rightarrow> RWLockfile \<Rightarrow> RWLockType \<Rightarrow> filesystem \<Rightarrow> RWLockfile \<times> filesystem" where
  "remove env h type fs =
     (case count h type of
        0 \<Rightarrow> (h, fs)
      | Suc 0 \<Rightarrow> unlock env h (Some type) fs
      | Suc (Suc n) \<Rightarrow> (set_count h type (count h type - 1), fs))"

definition removeSync ::
  "Env \<Rightarrow> RWLockfile \<Rightarrow> RWLockType \<Rightarrow> filesystem \<Rightarrow> error option \<times> RWLockfile \<times> filesystem" where
  "removeSync env h type fs =
     (case count h type of
        0 \<Rightarrow> (None, h, fs)
      | Suc 0 \<Rightarrow> unlockSync env h (Some type) fs
      | Suc (Suc n) \<Rightarrow> (None, set_count h type (count h type - 1), fs))"

section \<open>Options and the acquisition loop\<close>

text \<open>
  The options of the constructor and of \<open>add\<close>; a missing option is \<open>None\<close>. Numbers are
  modelled as real numbers (exact arithmetic).
\<close>

record RWLockfileOptions =
  o_timeout :: "real option"
  o_retryInterval :: "real option"
  o_ifLocked :: "IfLockedFn option"

record RWLockOptions =
  opt_reason :: "string option"
  opt_ifLocked :: "IfLockedFn option"
  opt_timeout :: "real option"
  opt_retryInterval :: "real option"

text \<open>
  JavaScript's \<open>x || d\<close>: on a number, \<open>d\<close> when \<open>x\<close> is missing or 0; on a function, \<open>d\<close>
  when \<open>x\<close> is missing.
\<close>

definition num_or :: "real option \<Rightarrow> real \<Rightarrow> real" where
  "num_or x d = (case x of None \<Rightarrow> d | Some v \<Rightarrow> if v = 0 then d else v)"

definition fn_or :: "'a option \<Rightarrow> 'a \<Rightarrow> 'a" where
  "fn_or x d = (case x of None \<Rightarrow> d | Some f \<Rightarrow> f)"

text \<open>
  The constructor. The identifier (from \<open>uuid/v4\<close>) and the process id are given from
  outside; a new handle holds nothing.
\<close>

definition new_RWLockfile :: "string \<Rightarrow> RWLockfileOptions \<Rightarrow> string \<Rightarrow> int \<Rightarrow> RWLockfile" where
  "new_RWLockfile b options u p =
     \<lparr>base = b,
      ifLocked = fn_or (o_ifLocked options) (\<lambda>status. None),
      timeout = num_or (o_timeout options) 30000,
      retryInterval = num_or (o_retryInterval options) 10,
      this_uuid = u,
      count_read = 0,
      count_write = 0,
      process_pid = p\<rparr>"

text \<open>
  \<open>random(min, max)\<close> is \<open>Math.floor(Math.random() * (max - min) + min)\<close>; the value \<open>u\<close> of
  \<open>Math.random()\<close>, a number from 0 up to but not including 1, is given from outside.
\<close>

definition random_floor :: "real \<Rightarrow> real \<Rightarrow> real \<Rightarrow> real" where
  "random_floor u mn mx = of_int \<lfloor>u * (mx - mn) + mn\<rfloor>"

text \<open>
  \<open>once(fn)\<close> wraps \<open>fn\<close> with the flag \<open>ran\<close> (here \<open>fired\<close>): the call returns the
  new flag and what \<open>fn\<close> returned, or \<open>None\<close> when \<open>fn\<close> was not called.
\<close>

definition once :: "bool \<Rightarrow> ('a \<Rightarrow> 'b) \<Rightarrow> 'a \<Rightarrow> bool \<times> 'b option" where
  "once fired fn args = (if fired then (fired, None) else (True, Some (fn args)))"

text \<open>
  What one run of the loop of \<open>_lock\<close> does, in order: an attempt (a call of \<open>tryLock\<close>), a
  call of the hook with a status, a sleep of some milliseconds.
\<close>

datatype Effect = Attempt | Notified Status | Slept real

text \<open>
  The loop of \<open>_lock\<close>. Its state is the remaining \<open>opts.timeout\<close>, \<open>opts.retryInterval\<close>
  and the flag of \<open>once\<close>. Each sleep consumes one round: the value of \<open>Math.random()\<close>
  and what the other processes do to the file system during the sleep. The result is
  \<open>None\<close> when the rounds run out before the loop ends, otherwise the error thrown
  (\<open>None\<close> when the lock was acquired), the effects in order, and the file system.
\<close>

fun lock_loop ::
  "Env \<Rightarrow> RWLockfile \<Rightarrow> RWLockType \<Rightarrow> string option \<Rightarrow> IfLockedFn \<Rightarrow> real \<Rightarrow> real \<Rightarrow> bool
     \<Rightarrow> (real \<times> (filesystem \<Rightarrow> filesystem)) list \<Rightarrow> filesystem
     \<Rightarrow> (error option \<times> Effect list \<times> filesystem) option" where
  "lock_loop env h type rsn cb tmo ri fired rounds fs =
     (case tryLock env h type rsn False fs of
        (None, h', fs') \<Rightarrow> Some (None, [Attempt], fs')
      | (Some err, h', fs') \<Rightarrow>
          (case err of
             RWLockfileError status \<Rightarrow>
               (case once fired cb status of
                  (fired', Some (Some thrown)) \<Rightarrow>
                    Some (Some thrown, [Attempt, Notified status], fs')
                | (fired', called) \<Rightarrow>
                    (let told = (case called of None \<Rightarrow> [] | Some r \<Rightarrow> [Notified status])
                     in if tmo < 0 then Some (Some err, Attempt # told, fs')
                        else
                          (case rounds of
                             [] \<Rightarrow> None
                           | (u, world) # rest \<Rightarrow>
                               (let interval = random_floor u (ri / 2) (ri * 2)
                                in map_option
                                     (\<lambda>(res, effs, fs'').
                                         (res, Attempt # told @ Slept interval # effs, fs''))
                                     (lock_loop env h type rsn cb (tmo - interval) (ri * 2) fired'
                                        rest (world fs'))))))
           | _ \<Rightarrow> Some (Some err, [Attempt], fs')))"

declare lock_loop.simps [simp del]

definition lock ::
  "Env \<Rightarrow> RWLockfile \<Rightarrow> RWLockType \<Rightarrow> RWLockOptions
     \<Rightarrow> (real \<times> (filesystem \<Rightarrow> filesystem)) list \<Rightarrow> filesystem
     \<Rightarrow> (error option \<times> Effect list \<times> filesystem) option" where
  "lock env h type opts rounds fs =
     (let tmo = num_or (opt_timeout opts) (timeout h);
          ri = num_or (opt_retryInterval opts) (retryInterval h);
          cb = fn_or (opt_ifLocked opts) (ifLocked h)
      in lock_loop env h type (opt_reason opts) cb tmo ri False rounds fs)"

definition add ::
  "Env \<Rightarrow> RWLockfile \<Rightarrow> RWLockType \<Rightarrow> RWLockOptions
     \<Rightarrow> (real \<times> (filesystem \<Rightarrow> filesystem)) list \<Rightarrow> filesystem
     \<Rightarrow> (error option \<times> Effect list \<times> RWLockfile \<times> filesystem) option" where
  "add env h type opts rounds fs =
     (if count h type = 0
      then (case lock env h type opts rounds fs of
              None \<Rightarrow> None
            | Some (Some err, effs, fs') \<Rightarrow> Some (Some err, effs, h, fs')
            | Some (None, effs, fs') \<Rightarrow>
                Some (None, effs, set_count h type (count h type + 1), fs'))
      else Some (None, [], set_count h type (count h type + 1), fs))"

section \<open>Vocabulary of the statements\<close>

subsection \<open>Jobs of a handle, effects of a run\<close>

text \<open>The record holds a job of the handle, of the given type.\<close>

definition holds_job :: "RWLockfileJSON \<Rightarrow> RWLockfile \<Rightarrow> RWLockType \<Rightarrow> bool" where
  "holds_job f h type =
     (case type of
        Read \<Rightarrow> \<exists>r \<in> set (readers f). uuid r = this_uuid h
      | Write \<Rightarrow> (case writer f of None \<Rightarrow> False | Some w \<Rightarrow> uuid w = this_uuid h))"

text \<open>The statuses the hook was called with, in order, among the effects of a run.\<close>

fun notifications :: "Effect list \<Rightarrow> Status list" where
  "notifications [] = []"
| "notifications (Notified s # es) = s # notifications es"
| "notifications (e # es) = notifications es"

text \<open>The job that \<open>addJob\<close> builds.\<close>

definition new_job :: "Env \<Rightarrow> RWLockfile \<Rightarrow> string option \<Rightarrow> Job" where
  "new_job env h rsn = \<lparr>uuid = this_uuid h, pid = process_pid h, reason = rsn, created = now env\<rparr>"

subsection \<open>What a purge keeps\<close>

text \<open>
  The readers that the purge of \<open>check\<close> (of \<open>checkSync\<close>) keeps, as the code computes
  them; the readers whose process is alive; and the status of a write request on a
  record with no writer and no reader left to purge: Open when every reader has the
  handle's own identifier, otherwise \<open>read_lock\<close> naming the readers.
\<close>

definition kept_readers :: "Env \<Rightarrow> Job list \<Rightarrow> Job list" where
  "kept_readers env js = filter (\<lambda>j. Some (pid j) \<notin> set (inactive_pids env js)) js"

definition kept_readersSync :: "Env \<Rightarrow> Job list \<Rightarrow> Job list" where
  "kept_readersSync env js = filter (\<lambda>j. pid j \<notin> set (inactive_pidsSync env js)) js"

definition alive_readers :: "Env \<Rightarrow> Job list \<Rightarrow> Job list" where
  "alive_readers env js = filter (\<lambda>j. isActive env (pid j)) js"

definition alive_readersSync :: "Env \<Rightarrow> Job list \<Rightarrow> Job list" where
  "alive_readersSync env js = filter (\<lambda>j. isActiveSync env (pid j)) js"

definition write_verdict :: "RWLockfile \<Rightarrow> Job list \<Rightarrow> Status" where
  "write_verdict h js =
     (if list_all (\<lambda>j. uuid j = this_uuid h) js then Open (file_path h)
      else Read_lock js (file_path h))"

text \<open>
  The answer of \<open>check\<close> and of \<open>checkSync\<close> on a record with no writer, for a handle that
  counts no write lock of its own: Open for a read request; for a write request the
  verdict on the readers kept, the record being written back when a reader was purged.
\<close>

definition no_writer_check ::
  "Env \<Rightarrow> RWLockfile \<Rightarrow> RWLockType \<Rightarrow> filesystem \<Rightarrow> Status \<times> filesystem" where
  "no_writer_check env h type fs =
     (if type = Read then (Open (file_path h), fs)
      else (write_verdict h (kept_readers env (readers (fetchFile env h fs))),
            if inactive_pids env (readers (fetchFile env h fs)) = [] then fs
            else writeFile h ((fetchFile env h fs)
                   \<lparr>readers := kept_readers env (readers (fetchFile env h fs))\<rparr>) fs))"

definition no_writer_checkSync ::
  "Env \<Rightarrow> RWLockfile \<Rightarrow> RWLockType \<Rightarrow> filesystem \<Rightarrow> (error + Status) \<times> filesystem" where
  "no_writer_checkSync env h type fs =
     (if type = Read then (Inr (Open (file_path h)), fs)
      else (Inr (write_verdict h (alive_readersSync env (readers (fetchFile env h fs)))),
            if inactive_pidsSync env (readers (fetchFile env h fs)) = [] then fs
            else writeFile h ((fetchFile env h fs)
                   \<lparr>readers := alive_readersSync env (readers (fetchFile env h fs))\<rparr>) fs))"

subsection \<open>Sequences of calls on one handle\<close>

text \<open>
  \<open>n\<close> calls of \<open>add\<close> in a row on one handle, each of which must return without an error
  (\<open>None\<close> otherwise); the first call is given the rounds. The result is the effects of all
  the calls, the handle and the file system. Likewise \<open>n\<close> calls of \<open>remove\<close>.
\<close>

fun adds ::
  "nat \<Rightarrow> Env \<Rightarrow> RWLockfile \<Rightarrow> RWLockType \<Rightarrow> RWLockOptions
     \<Rightarrow> (real \<times> (filesystem \<Rightarrow> filesystem)) list \<Rightarrow> filesystem
     \<Rightarrow> (Effect list \<times> RWLockfile \<times> filesystem) option" where
  "adds 0 env h type opts rounds fs = Some ([], h, fs)"
| "adds (Suc n) env h type opts rounds fs =
     (case add env h type opts rounds fs of
        Some (None, effs, h', fs') \<Rightarrow>
          map_option (\<lambda>(effs', h'', fs''). (effs @ effs', h'', fs''))
            (adds n env h' type opts [] fs')
      | _ \<Rightarrow> None)"

fun removes ::
  "nat \<Rightarrow> Env \<Rightarrow> RWLockfile \<Rightarrow> RWLockType \<Rightarrow> filesystem \<Rightarrow> RWLockfile \<times> filesystem" where
  "removes 0 env h type fs = (h, fs)"
| "removes (Suc n) env h type fs =
     (case remove env h type fs of (h', fs') \<Rightarrow> removes n env h' type fs')"

subsection \<open>Mutual exclusion as an invariant\<close>

text \<open>
  A record is exclusive when every reader beside a writer carries the writer's own
  identifier: no writer stands together with a reader of another handle. (A record has
  room for one writer only.)
\<close>

definition exclusive :: "RWLockfileJSON \<Rightarrow> bool" where
  "exclusive f =
     (case writer f of None \<Rightarrow> True | Some w \<Rightarrow> list_all (\<lambda>r. uuid r = uuid w) (readers f))"

text \<open>A process is alive when both liveness tests say so.\<close>

definition alive :: "Env \<Rightarrow> int \<Rightarrow> bool" where
  "alive env p = (isActive env p \<and> isActiveSync env p)"

text \<open>
  A handle that counts a write lock owns the writer of the record: the writer carries the
  handle's identifier and process id.
\<close>

definition owner_ok :: "RWLockfile \<Rightarrow> RWLockfileJSON \<Rightarrow> bool" where
  "owner_ok h f =
     (count h Write = 0 \<or>
      (case writer f of None \<Rightarrow> False
       | Some w \<Rightarrow> uuid w = this_uuid h \<and> pid w = process_pid h))"

text \<open>
  What a call by handle \<open>h\<close> owes the other handles: the writer job of another handle
  whose process is alive stays the writer. A step of \<open>h\<close> from one file system to another
  is sound when it keeps the handle's identity, touches no other file, owes the others
  nothing, and takes an exclusive record whose writer \<open>h\<close> owns if it counts a write lock
  to a record of that kind.
\<close>

definition keeps_live :: "Env \<Rightarrow> RWLockfile \<Rightarrow> RWLockfileJSON \<Rightarrow> RWLockfileJSON \<Rightarrow> bool" where
  "keeps_live env h f f' =
     (case writer f of None \<Rightarrow> True
      | Some w \<Rightarrow> uuid w = this_uuid h \<or> \<not> alive env (pid w) \<or> writer f' = Some w)"

definition sound_step ::
  "Env \<Rightarrow> RWLockfile \<Rightarrow> filesystem \<Rightarrow> RWLockfile \<Rightarrow> filesystem \<Rightarrow> bool" where
  "sound_step env h fs h' fs' \<longleftrightarrow>
     this_uuid h' = this_uuid h \<and> base h' = base h \<and> process_pid h' = process_pid h \<and>
     (\<forall>q. q \<noteq> file_path h \<longrightarrow> fs' q = fs q) \<and>
     keeps_live env h (fetchFile env h fs) (fetchFile env h fs') \<and>
     (exclusive (fetchFile env h fs) \<and> owner_ok h (fetchFile env h fs) \<longrightarrow>
        exclusive (fetchFile env h fs') \<and> owner_ok h' (fetchFile env h fs'))"

subsection \<open>A system of handles\<close>

text \<open>
  The handles of all processes, by identifier, and the file system they share. A call is
  one operation of the public interface, run as a whole (the lower-level lock file that
  serialises the calls is outside the sources); \<open>add\<close> is given the values of
  \<open>Math.random()\<close> for its sleeps, during which nothing else happens. \<open>call\<close> returns the
  handle and the file system that the operation leaves, whether or not it threw, and
  \<open>None\<close> when the draws run out before \<open>add\<close> ends.
\<close>

definition undisturbed :: "real list \<Rightarrow> (real \<times> (filesystem \<Rightarrow> filesystem)) list" where
  "undisturbed draws = map (\<lambda>u. (u, \<lambda>fs. fs)) draws"

record System =
  sys_files :: filesystem
  sys_handles :: "string \<Rightarrow> RWLockfile option"

datatype Call =
    Add RWLockType RWLockOptions "real list"
  | TryLock RWLockType "string option" bool
  | Remove RWLockType
  | Unlock "RWLockType option"
  | Check RWLockType
  | AddSync RWLockType "string option"
  | RemoveSync RWLockType
  | UnlockSync "RWLockType option"
  | CheckSync RWLockType

fun call :: "Env \<Rightarrow> RWLockfile \<Rightarrow> Call \<Rightarrow> filesystem \<Rightarrow> (RWLockfile \<times> filesystem) option" where
  "call env h (Add type opts draws) fs =
     map_option (\<lambda>(err, effs, h', fs'). (h', fs')) (add env h type opts (undisturbed draws) fs)"
| "call env h (TryLock type rsn inc) fs = Some (snd (tryLock env h type rsn inc fs))"
| "call env h (Remove type) fs = Some (remove env h type fs)"
| "call env h (Unlock t) fs = Some (unlock env h t fs)"
| "call env h (Check type) fs = Some (h, snd (check env h type fs))"
| "call env h (AddSync type rsn) fs = Some (snd (addSync env h type rsn fs))"
| "call env h (RemoveSync type) fs = Some (snd (removeSync env h type fs))"
| "call env h (UnlockSync t) fs = Some (snd (unlockSync env h t fs))"
| "call env h (CheckSync type) fs = Some (h, snd (checkSync env h type fs))"

definition perform :: "Env \<Rightarrow> System \<Rightarrow> string \<times> Call \<Rightarrow> System option" where
  "perform env s e =
     (case e of (u, c) \<Rightarrow>
        (case sys_handles s u of
           None \<Rightarrow> None
         | Some h \<Rightarrow>
             (case call env h c (sys_files s) of
                None \<Rightarrow> None
              | Some (h', fs') \<Rightarrow>
                  Some \<lparr>sys_files = fs', sys_handles = (sys_handles s)(u := Some h')\<rparr>)))"

fun run :: "Env \<Rightarrow> System \<Rightarrow> (string \<times> Call) list \<Rightarrow> System option" where
  "run env s [] = Some s"
| "run env s (e # es) = (case perform env s e of None \<Rightarrow> None | Some s' \<Rightarrow> run env s' es)"

text \<open>
  The record at a path, as \<open>_fetchFile\<close> reads it. A system is consistent when every handle
  is filed under its identifier, every record is exclusive, and every handle of a live
  process that counts a write lock owns the writer of its record. The actors of a list of
  calls are alive when the process of each calling handle is.
\<close>

definition record_at :: "Env \<Rightarrow> filesystem \<Rightarrow> string \<Rightarrow> RWLockfileJSON" where
  "record_at env fs path =
     (case readJSON fs path of
        Inr f \<Rightarrow> parseFile f
      | Inl err \<Rightarrow> \<lparr>version = pkg_version env, writer = None, readers = []\<rparr>)"

definition consistent :: "Env \<Rightarrow> System \<Rightarrow> bool" where
  "consistent env s \<longleftrightarrow>
     (\<forall>u h. sys_handles s u = Some h \<longrightarrow> this_uuid h = u) \<and>
     (\<forall>path. exclusive (record_at env (sys_files s) path)) \<and>
     (\<forall>u h. sys_handles s u = Some h \<longrightarrow> alive env (process_pid h) \<longrightarrow>
        owner_ok h (record_at env (sys_files s) (file_path h)))"

definition actors_alive :: "Env \<Rightarrow> System \<Rightarrow> (string \<times> Call) list \<Rightarrow> bool" where
  "actors_alive env s es =
     list_all (\<lambda>e. case sys_handles s (fst e) of
                      None \<Rightarrow> True
                    | Some h \<Rightarrow> alive env (process_pid h)) es"

section \<open>Concrete inputs\<close>

text \<open>
  An environment in which the processes 100 and 200 are alive, the liveness test throws
  for process 7, and every other process is dead; two handles on the base path
  \<open>/tmp/x\<close>, \<open>handle_A\<close> in process 100 and \<open>handle_B\<close> in process 200; the empty file
  system.
\<close>

definition liveness :: "int \<Rightarrow> error + bool" where
  "liveness p = (if p = 7 then Inl (Failure ''EPERM'') else Inr (p = 100 \<or> p = 200))"

definition env0 :: Env where
  "env0 = \<lparr>pkg_version = ''1.4.1'', isProcessActive_isActive = liveness,
           isProcessActive_isActiveSync = liveness, now = 5\<rparr>"

definition no_options :: RWLockfileOptions where
  "no_options = \<lparr>o_timeout = None, o_retryInterval = None, o_ifLocked = None\<rparr>"

definition handle_A :: RWLockfile where
  "handle_A = new_RWLockfile ''/tmp/x'' no_options ''A'' 100"

definition handle_B :: RWLockfile where
  "handle_B = new_RWLockfile ''/tmp/x'' no_options ''B'' 200"

definition no_files :: filesystem where
  "no_files = (\<lambda>path. None)"

text \<open>
  The file system after \<open>handle_A\<close> was granted a read lock at time 5: the record at
  \<open>/tmp/x.lock\<close> holds its reader job.
\<close>

definition reader_A_files :: filesystem where
  "reader_A_files = no_files(''/tmp/x.lock'' := Some (Json
      \<lparr>d_version = ''1.4.1'', d_writer = None,
       d_readers = [\<lparr>d_uuid = ''A'', d_pid = 100, d_reason = None, d_created = Some 5\<rparr>]\<rparr>))"

text \<open>
  The file system while \<open>handle_A\<close> holds the write lock, granted at time 5, and the
  status that names its job; options with a budget of 1 ms and a retry interval of 1 ms.
\<close>

definition job_A :: Job where
  "job_A = \<lparr>uuid = ''A'', pid = 100, reason = None, created = 5\<rparr>"

definition writer_A_files :: filesystem where
  "writer_A_files = no_files(''/tmp/x.lock'' := Some (Json
      \<lparr>d_version = ''1.4.1'',
       d_writer = Some \<lparr>d_uuid = ''A'', d_pid = 100, d_reason = None, d_created = Some 5\<rparr>,
       d_readers = []\<rparr>))"

definition blocked_by_A :: Status where
  "blocked_by_A = Write_lock job_A ''/tmp/x.lock''"

definition retry_opts :: RWLockOptions where
  "retry_opts =
     \<lparr>opt_reason = None, opt_ifLocked = None, opt_timeout = Some 1, opt_retryInterval = Some 1\<rparr>"

text \<open>
  A record left by a process that died holding the write lock (the liveness test throws
  for its process id 7), a record with a reader of the dead process 300 and a reader of
  \<open>handle_A\<close>, and a record with a reader whose process id is 0.
\<close>

definition job_C :: Job where
  "job_C = \<lparr>uuid = ''C'', pid = 7, reason = None, created = 2\<rparr>"

definition job_D :: Job where
  "job_D = \<lparr>uuid = ''D'', pid = 300, reason = None, created = 3\<rparr>"

definition stale_writer_files :: filesystem where
  "stale_writer_files = no_files(''/tmp/x.lock'' := Some (Json
      \<lparr>d_version = ''1.4.1'',
       d_writer = Some \<lparr>d_uuid = ''C'', d_pid = 7, d_reason = None, d_created = Some 2\<rparr>,
       d_readers = []\<rparr>))"

definition two_readers_files :: filesystem where
  "two_readers_files = no_files(''/tmp/x.lock'' := Some (Json
      \<lparr>d_version = ''1.4.1'', d_writer = None,
       d_readers = [\<lparr>d_uuid = ''D'', d_pid = 300, d_reason = None, d_created = Some 3\<rparr>,
                    \<lparr>d_uuid = ''A'', d_pid = 100, d_reason = None, d_created = Some 5\<rparr>]\<rparr>))"

definition job_Z :: Job where
  "job_Z = \<lparr>uuid = ''Z'', pid = 0, reason = None, created = 1\<rparr>"

definition pid_0_reader_files :: filesystem where
  "pid_0_reader_files = no_files(''/tmp/x.lock'' := Some (Json
      \<lparr>d_version = ''1.4.1'', d_writer = None,
       d_readers = [\<lparr>d_uuid = ''Z'', d_pid = 0, d_reason = None, d_created = Some 1\<rparr>]\<rparr>))"

text \<open>
  Two handles on one path, nothing locked; options that give up after one attempt; and a
  sequence of calls in which both handles read, \<open>handle_A\<close> is refused the write lock, gets
  it once \<open>handle_B\<close> has unlocked, and \<open>handle_B\<close> is refused in turn. \<open>observe\<close> reads the
  record at \<open>/tmp/x.lock\<close> and the two handles off a system.
\<close>

definition two_handles :: System where
  "two_handles =
     \<lparr>sys_files = no_files,
      sys_handles = (\<lambda>u. None)(''A'' := Some handle_A, ''B'' := Some handle_B)\<rparr>"

definition no_wait :: RWLockOptions where
  "no_wait = retry_opts\<lparr>opt_timeout := Some (- 1)\<rparr>"

definition contention :: "(string \<times> Call) list" where
  "contention =
     [(''A'', Add Read no_wait []), (''B'', Add Read no_wait []), (''A'', Add Write no_wait []),
      (''B'', Unlock None), (''A'', Add Write no_wait []), (''B'', TryLock Read None True),
      (''B'', CheckSync Write)]"

definition observe :: "Env \<Rightarrow> System \<Rightarrow> RWLockfileJSON \<times> RWLockfile option \<times> RWLockfile option" where
  "observe env s =
     (record_at env (sys_files s) ''/tmp/x.lock'', sys_handles s ''A'', sys_handles s ''B'')"

text \<open>
  A third handle, in process 7, which runs although the liveness test throws for it; the
  system of the three handles; and a sequence of calls in which \<open>handle_B\<close> reclaims the
  write lock that the third handle holds.
\<close>

definition handle_C :: RWLockfile where
  "handle_C = new_RWLockfile ''/tmp/x'' no_options ''C'' 7"

definition three_handles :: System where
  "three_handles =
     \<lparr>sys_files = no_files,
      sys_handles = (\<lambda>u. None)
        (''A'' := Some handle_A, ''B'' := Some handle_B, ''C'' := Some handle_C)\<rparr>"

definition reclaim :: "(string \<times> Call) list" where
  "reclaim =
     [(''C'', Add Write no_wait []), (''B'', Add Write no_wait []), (''C'', Add Read no_wait [])]"

text \<open>
  The file system while \<open>handle_B\<close> holds the write lock, granted at time 5; the
  environment after process 200 has died; and what \<open>survey\<close> reads off a system: the file
  system and the third handle.
\<close>

definition job_B :: Job where
  "job_B = \<lparr>uuid = ''B'', pid = 200, reason = None, created = 5\<rparr>"

definition writer_B_files :: filesystem where
  "writer_B_files = no_files(''/tmp/x.lock'' := Some (Json
      \<lparr>d_version = ''1.4.1'',
       d_writer = Some \<lparr>d_uuid = ''B'', d_pid = 200, d_reason = None, d_created = Some 5\<rparr>,
       d_readers = []\<rparr>))"

definition liveness_later :: "int \<Rightarrow> error + bool" where
  "liveness_later p = (if p = 7 then Inl (Failure ''EPERM'') else Inr (p = 100))"

definition env1 :: Env where
  "env1 = \<lparr>pkg_version = ''1.4.1'', isProcessActive_isActive = liveness_later,
           isProcessActive_isActiveSync = liveness_later, now = 9\<rparr>"

definition survey :: "System \<Rightarrow> filesystem \<times> RWLockfile option" where
  "survey s = (sys_files s, sys_handles s ''C'')"

text \<open>The definitions of the model that evaluating a call on a concrete input unfolds.\<close>

lemmas store_defs = fetchFile_def readJSON_def parseFile_def parse_addDate_def writeFile_def
  outputJSON_def remove_file_def stringifyFile_def stringify_addDate_def

lemmas call_defs = add_def lock_def lock_loop.simps tryLock_def check.simps checkSync.simps
  lockSync_def addSync_def remove_def removeJob_def removeJobFromFile_def addJob_def
  statusFromFile_def once_def isActive_def isActiveSync_def inactive_pids_def
  inactive_pidsSync_def truthy_pid_def fetchFileSync_eq writeFileSync_eq Let_def

section \<open>Facts shared by the proofs\<close>

subsection \<open>The store and the counters\<close>

lemma writeFile_twice: "writeFile h f (writeFile h g fs) = writeFile h f fs"
  by (simp add: writeFile_def remove_file_def outputJSON_def)

lemma writeFile_cases:
  "(writer a = None \<and> readers a = [] \<and> writer b = None \<and> readers b = []) \<or> a = b \<Longrightarrow>
     writeFile h a fs = writeFile h b fs"
  by (auto simp: writeFile_def)

lemma writeFile_frame: "q \<noteq> file_path h \<Longrightarrow> writeFile h f fs q = fs q"
  by (simp add: writeFile_def remove_file_def outputJSON_def)

lemma fetchFile_handle:
  "base h' = base h \<Longrightarrow> fetchFile env h' fs = fetchFile env h fs"
  by (simp add: fetchFile_def file_path_def)

lemma count_set_count: "count (set_count h type n) type = n"
  by (cases type) simp_all

lemma set_count_same: "set_count h type (count h type) = h"
  by (cases type) simp_all

lemma set_count_twice: "set_count (set_count h type a) type b = set_count h type b"
  by (cases type) simp_all

subsection \<open>Releasing\<close>

lemma removeJobSync_eq: "removeJobSync env h type fs = Inr (removeJob env h type fs)"
  by (simp add: removeJobSync_def removeJob_def writeFileSync_eq fetchFileSync_eq)

lemma removeJob_handle:
  assumes "this_uuid h' = this_uuid h" and "base h' = base h"
  shows "removeJob env h' type fs = removeJob env h type fs"
proof -
  have 1: "removeJobFromFile h' type f = removeJobFromFile h type f" for f
    using assms by (cases "writer f") (simp_all add: removeJobFromFile_def)
  have 2: "file_path h' = file_path h"
    using assms by (simp add: file_path_def)
  show ?thesis
    unfolding removeJob_def fetchFile_def writeFile_def 1 2 ..
qed

lemma removeJob_count_upd:
  "removeJob env (h\<lparr>count_read := n\<rparr>) type fs = removeJob env h type fs"
  "removeJob env (h\<lparr>count_write := n\<rparr>) type fs = removeJob env h type fs"
  by (rule removeJob_handle; simp)+

lemma removeJob_set_count:
  "removeJob env (set_count h type n) type' fs = removeJob env h type' fs"
  by (cases type) (simp_all add: removeJob_count_upd)

lemma fetch_removeJob:
  "writer (fetchFile env h (removeJob env h type fs)) =
     writer (removeJobFromFile h type (fetchFile env h fs)) \<and>
   readers (fetchFile env h (removeJob env h type fs)) =
     readers (removeJobFromFile h type (fetchFile env h fs))"
  by (simp add: removeJob_def fetch_write)

text \<open>Releasing read and then write leaves the file system that write and then read leaves.\<close>

lemma removeJob_commute:
  "removeJob env h Write (removeJob env h Read fs) =
     removeJob env h Read (removeJob env h Write fs)"
proof -
  define f where "f = fetchFile env h fs"
  have "removeJob env h Write (removeJob env h Read fs) =
        writeFile h (removeJobFromFile h Write
                       (fetchFile env h (writeFile h (removeJobFromFile h Read f) fs))) fs"
    by (simp add: removeJob_def Let_def writeFile_twice f_def)
  moreover have "removeJob env h Read (removeJob env h Write fs) =
        writeFile h (removeJobFromFile h Read
                       (fetchFile env h (writeFile h (removeJobFromFile h Write f) fs))) fs"
    by (simp add: removeJob_def Let_def writeFile_twice f_def)
  moreover have
    "writeFile h (removeJobFromFile h Write
                    (fetchFile env h (writeFile h (removeJobFromFile h Read f) fs))) fs =
     writeFile h (removeJobFromFile h Read
                    (fetchFile env h (writeFile h (removeJobFromFile h Write f) fs))) fs"
    by (rule writeFile_cases) (cases "writer f"; simp add: fetch_write removeJobFromFile_def)
  ultimately show ?thesis by simp
qed

text \<open>The synchronous release throws nothing and leaves what the asynchronous one leaves.\<close>

lemma unlockSync_eq: "unlockSync env h t fs = (None, unlock env h t fs)"
proof (cases t)
  case None
  show ?thesis unfolding None
    by (simp add: removeJobSync_eq removeJob_commute removeJob_count_upd Let_def)
next
  case (Some type)
  then show ?thesis by (simp add: removeJobSync_eq)
qed

lemma removeSync_eq: "removeSync env h type fs = (None, remove env h type fs)"
  by (simp add: removeSync_def remove_def unlockSync_eq split: nat.splits)

subsection \<open>The closed form of \<open>check\<close>\<close>

text \<open>
  \<open>check\<close> restarts at most twice: once after it purged a dead writer, once after it
  purged dead readers. So its answer can be written down without recursion.
\<close>

lemma in_inactive_pids:
  "Some p \<in> set (inactive_pids env js) \<longleftrightarrow> (p \<in> pid ` set js \<and> \<not> isActive env p \<and> p \<noteq> 0)"
  by (auto simp: inactive_pids_def truthy_pid_def split: if_splits)

lemma inactive_pids_empty:
  "inactive_pids env js = [] \<longleftrightarrow> (\<forall>j \<in> set js. isActive env (pid j) \<or> pid j = 0)"
proof -
  have "None \<notin> set (inactive_pids env js)"
    by (simp add: inactive_pids_def truthy_pid_def)
  then have "inactive_pids env js = [] \<longleftrightarrow> (\<forall>p. Some p \<notin> set (inactive_pids env js))"
    by (cases "inactive_pids env js") (auto simp: all_conj_distrib, metis option.exhaust)
  then show ?thesis
    by (auto simp: in_inactive_pids)
qed

lemma kept_readers_filter:
  "kept_readers env js = filter (\<lambda>j. isActive env (pid j) \<or> pid j = 0) js"
  unfolding kept_readers_def
  by (rule filter_cong) (auto simp: in_inactive_pids)

lemma kept_readers_alive:
  "\<forall>j \<in> set js. pid j \<noteq> 0 \<Longrightarrow> kept_readers env js = alive_readers env js"
  unfolding kept_readers_filter alive_readers_def
  by (rule filter_cong) auto

lemma kept_readers_stable: "inactive_pids env (kept_readers env js) = []"
  by (simp add: inactive_pids_empty kept_readers_filter)

lemma kept_readers_id: "inactive_pids env js = [] \<Longrightarrow> kept_readers env js = js"
  by (simp add: kept_readers_def)

lemma find_None_list_all:
  "find (\<lambda>j. uuid j \<noteq> u) js = None \<longleftrightarrow> list_all (\<lambda>j. uuid j = u) js"
  by (auto simp: find_None_iff list_all_iff)

lemma check_Read_no_writer:
  "writer (fetchFile env h fs) = None \<Longrightarrow> check env h Read fs = (Open (file_path h), fs)"
  by (subst check.simps) (simp add: statusFromFile_def Let_def)

lemma check_Write_stable:
  assumes "count h Write = 0" and "writer (fetchFile env h fs) = None"
    and "inactive_pids env (readers (fetchFile env h fs)) = []"
  shows "check env h Write fs = (write_verdict h (readers (fetchFile env h fs)), fs)"
  using assms
  by (subst check.simps)
     (simp add: statusFromFile_def write_verdict_def find_None_list_all Let_def)

lemma check_Write_no_writer:
  assumes "count h Write = 0" and "writer (fetchFile env h fs) = None"
  shows "check env h Write fs =
           (write_verdict h (kept_readers env (readers (fetchFile env h fs))),
            if inactive_pids env (readers (fetchFile env h fs)) = [] then fs
            else writeFile h ((fetchFile env h fs)
                   \<lparr>readers := kept_readers env (readers (fetchFile env h fs))\<rparr>) fs)"
proof (cases "inactive_pids env (readers (fetchFile env h fs)) = []")
  case True
  with assms show ?thesis
    by (simp add: check_Write_stable kept_readers_id)
next
  case False
  define f where "f = fetchFile env h fs"
  define fs' where "fs' = writeFile h (f\<lparr>readers := kept_readers env (readers f)\<rparr>) fs"
  from False have ne: "readers f \<noteq> []"
    by (auto simp: f_def inactive_pids_def)
  have step: "check env h Write fs = check env h Write fs'"
    using assms False ne
    by (subst check.simps)
       (simp add: statusFromFile_def Let_def f_def fs'_def kept_readers_def)
  have w': "writer (fetchFile env h fs') = None"
    and r': "readers (fetchFile env h fs') = kept_readers env (readers f)"
    using assms by (simp_all add: fs'_def fetch_write f_def)
  have "check env h Write fs' = (write_verdict h (kept_readers env (readers f)), fs')"
    using check_Write_stable [OF assms(1) w'] by (simp add: r' kept_readers_stable)
  with step False show ?thesis
    by (simp add: f_def fs'_def)
qed

lemma check_dead_writer:
  assumes "count h Write = 0" and "writer (fetchFile env h fs) = Some job"
    and "\<not> isActive env (pid job)"
  shows "check env h type fs =
           check env h type (writeFile h ((fetchFile env h fs)\<lparr>writer := None\<rparr>) fs)"
  using assms by (subst check.simps) (cases type; simp add: statusFromFile_def Let_def)

lemma check_live_writer:
  assumes "count h Write = 0" and "writer (fetchFile env h fs) = Some job"
    and "isActive env (pid job)"
  shows "check env h type fs = (Write_lock job (file_path h), fs)"
  using assms by (subst check.simps) (cases type; simp add: statusFromFile_def Let_def)

lemma check_self_ownership_aux:
  "count h Write \<noteq> 0 \<Longrightarrow> check env h type fs = (Open (file_path h), fs)"
  by (subst check.simps) (cases type; simp add: statusFromFile_def Let_def)

lemma check_no_writer:
  "count h Write = 0 \<Longrightarrow> writer (fetchFile env h fs) = None \<Longrightarrow>
     check env h type fs = no_writer_check env h type fs"
  by (cases type) (simp_all add: no_writer_check_def check_Read_no_writer check_Write_no_writer)

lemma check_closed:
  "check env h type fs =
     (if count h Write \<noteq> 0 then (Open (file_path h), fs)
      else case writer (fetchFile env h fs) of
             None \<Rightarrow> no_writer_check env h type fs
           | Some w \<Rightarrow>
               if isActive env (pid w) then (Write_lock w (file_path h), fs)
               else no_writer_check env h type
                      (writeFile h ((fetchFile env h fs)\<lparr>writer := None\<rparr>) fs))"
proof (cases "count h Write = 0")
  case False
  then show ?thesis
    using check_self_ownership_aux [of h env type fs] by simp
next
  case True
  show ?thesis
  proof (cases "writer (fetchFile env h fs)")
    case None
    with True show ?thesis by (simp add: check_no_writer)
  next
    case (Some w)
    show ?thesis
    proof (cases "isActive env (pid w)")
      case True
      with \<open>count h Write = 0\<close> Some show ?thesis
        by (simp add: check_live_writer)
    next
      case False
      have "writer (fetchFile env h (writeFile h ((fetchFile env h fs)\<lparr>writer := None\<rparr>) fs)) = None"
        by (simp add: fetch_write)
      with False \<open>count h Write = 0\<close> Some show ?thesis
        by (simp add: check_dead_writer check_no_writer)
    qed
  qed
qed

lemma no_writer_check_Open:
  "no_writer_check env h type fs = (Open p, fs') \<Longrightarrow> p = file_path h"
  by (auto simp: no_writer_check_def write_verdict_def split: if_splits)

lemma check_Open_path: "check env h type fs = (Open p, fs') \<Longrightarrow> p = file_path h"
  by (auto simp: check_closed split: if_splits option.splits dest: no_writer_check_Open)

subsection \<open>The closed form of \<open>checkSync\<close>\<close>

lemma in_inactive_pidsSync:
  "p \<in> set (inactive_pidsSync env js) \<longleftrightarrow> (p \<in> pid ` set js \<and> \<not> isActiveSync env p)"
  by (auto simp: inactive_pidsSync_def)

lemma inactive_pidsSync_empty:
  "inactive_pidsSync env js = [] \<longleftrightarrow> (\<forall>j \<in> set js. isActiveSync env (pid j))"
  by (auto simp: inactive_pidsSync_def filter_empty_conv)

lemma kept_readersSync_alive: "kept_readersSync env js = alive_readersSync env js"
  unfolding kept_readersSync_def alive_readersSync_def
  by (rule filter_cong) (auto simp: in_inactive_pidsSync)

lemma alive_readersSync_stable: "inactive_pidsSync env (alive_readersSync env js) = []"
  by (simp add: inactive_pidsSync_empty alive_readersSync_def)

lemma alive_readersSync_id: "inactive_pidsSync env js = [] \<Longrightarrow> alive_readersSync env js = js"
  by (simp add: inactive_pidsSync_empty alive_readersSync_def)

lemma checkSync_Write_stable:
  assumes "count h Write = 0" and "writer (fetchFile env h fs) = None"
    and "inactive_pidsSync env (readers (fetchFile env h fs)) = []"
  shows "checkSync env h Write fs = (Inr (write_verdict h (readers (fetchFile env h fs))), fs)"
  using assms
  by (subst checkSync.simps)
     (simp add: statusFromFile_def write_verdict_def find_None_list_all Let_def fetchFileSync_eq)

lemma checkSync_Write_no_writer:
  assumes "count h Write = 0" and "writer (fetchFile env h fs) = None"
  shows "checkSync env h Write fs =
           (Inr (write_verdict h (alive_readersSync env (readers (fetchFile env h fs)))),
            if inactive_pidsSync env (readers (fetchFile env h fs)) = [] then fs
            else writeFile h ((fetchFile env h fs)
                   \<lparr>readers := alive_readersSync env (readers (fetchFile env h fs))\<rparr>) fs)"
proof (cases "inactive_pidsSync env (readers (fetchFile env h fs)) = []")
  case True
  with assms show ?thesis
    by (simp add: checkSync_Write_stable alive_readersSync_id)
next
  case False
  define f where "f = fetchFile env h fs"
  define fs' where "fs' = writeFile h (f\<lparr>readers := alive_readersSync env (readers f)\<rparr>) fs"
  from False have ne: "readers f \<noteq> []"
    by (auto simp: f_def inactive_pidsSync_def)
  have step: "checkSync env h Write fs = checkSync env h Write fs'"
    using assms False ne
    by (subst checkSync.simps)
       (simp add: statusFromFile_def Let_def f_def fs'_def fetchFileSync_eq writeFileSync_eq
          kept_readersSync_alive [unfolded kept_readersSync_def])
  have w': "writer (fetchFile env h fs') = None"
    and r': "readers (fetchFile env h fs') = alive_readersSync env (readers f)"
    using assms by (simp_all add: fs'_def fetch_write f_def)
  have "checkSync env h Write fs' = (Inr (write_verdict h (alive_readersSync env (readers f))), fs')"
    using checkSync_Write_stable [OF assms(1) w'] by (simp add: r' alive_readersSync_stable)
  with step False show ?thesis
    by (simp add: f_def fs'_def)
qed

lemma checkSync_self_ownership_aux:
  "count h Write \<noteq> 0 \<Longrightarrow> checkSync env h type fs = (Inr (Open (file_path h)), fs)"
  by (subst checkSync.simps) (cases type; simp add: statusFromFile_def Let_def)

lemma checkSync_no_writer:
  assumes "count h Write = 0" and "writer (fetchFile env h fs) = None"
  shows "checkSync env h type fs = no_writer_checkSync env h type fs"
proof (cases type)
  case Read
  with assms show ?thesis
    by (subst checkSync.simps)
       (simp add: statusFromFile_def Let_def fetchFileSync_eq no_writer_checkSync_def)
next
  case Write
  with assms show ?thesis
    by (simp add: checkSync_Write_no_writer no_writer_checkSync_def)
qed

lemma checkSync_closed:
  "checkSync env h type fs =
     (if count h Write \<noteq> 0 then (Inr (Open (file_path h)), fs)
      else case writer (fetchFile env h fs) of
             None \<Rightarrow> no_writer_checkSync env h type fs
           | Some w \<Rightarrow>
               if isActiveSync env (pid w) then (Inr (Write_lock w (file_path h)), fs)
               else no_writer_checkSync env h type
                      (writeFile h ((fetchFile env h fs)\<lparr>writer := None\<rparr>) fs))"
proof (cases "count h Write = 0")
  case False
  then show ?thesis
    by (simp add: checkSync_self_ownership_aux)
next
  case zero: True
  show ?thesis
  proof (cases "writer (fetchFile env h fs)")
    case None
    with zero show ?thesis by (simp add: checkSync_no_writer)
  next
    case (Some w)
    show ?thesis
    proof (cases "isActiveSync env (pid w)")
      case True
      with zero Some show ?thesis
        by (subst checkSync.simps)
           (cases type; simp add: statusFromFile_def Let_def fetchFileSync_eq)
    next
      case False
      have "writer (fetchFile env h (writeFile h ((fetchFile env h fs)\<lparr>writer := None\<rparr>) fs)) = None"
        by (simp add: fetch_write)
      then have "checkSync env h type (writeFile h ((fetchFile env h fs)\<lparr>writer := None\<rparr>) fs) =
          no_writer_checkSync env h type (writeFile h ((fetchFile env h fs)\<lparr>writer := None\<rparr>) fs)"
        using zero by (intro checkSync_no_writer)
      moreover have "checkSync env h type fs =
          checkSync env h type (writeFile h ((fetchFile env h fs)\<lparr>writer := None\<rparr>) fs)"
        using zero Some False
        by (subst checkSync.simps)
           (cases type; simp add: statusFromFile_def Let_def fetchFileSync_eq writeFileSync_eq)
      ultimately show ?thesis
        using zero Some False by simp
    qed
  qed
qed

section \<open>C1: mutual exclusion\<close>

subsection \<open>Every call is a sound step\<close>

lemma sound_step_refl: "sound_step env h fs h fs"
  by (simp add: sound_step_def keeps_live_def split: option.splits)

lemma sound_step_trans:
  assumes "sound_step env h fs h1 fs1" and "sound_step env h1 fs1 h2 fs2"
  shows "sound_step env h fs h2 fs2"
proof -
  have b: "base h1 = base h" and p: "file_path h1 = file_path h"
    using assms(1) by (simp_all add: sound_step_def file_path_def)
  have f1: "fetchFile env h1 fs' = fetchFile env h fs'" for fs'
    using b by (rule fetchFile_handle)
  have "keeps_live env h (fetchFile env h fs) (fetchFile env h fs2)"
    using assms unfolding sound_step_def f1 p keeps_live_def
    by (auto split: option.splits)
  then show ?thesis
    using assms unfolding sound_step_def f1 p by simp
qed

lemma sound_step_count:
  assumes "this_uuid h' = this_uuid h" "base h' = base h" "process_pid h' = process_pid h"
    and "count h Write = 0 \<Longrightarrow> count h' Write = 0"
  shows "sound_step env h fs h' fs"
  using assms by (auto simp: sound_step_def keeps_live_def owner_ok_def split: option.splits)

lemma sound_step_weaken:
  assumes "sound_step env h fs h1 fs'"
    and "this_uuid h2 = this_uuid h1" "base h2 = base h1" "process_pid h2 = process_pid h1"
    and "count h1 Write = 0 \<Longrightarrow> count h2 Write = 0"
  shows "sound_step env h fs h2 fs'"
  using assms(1) sound_step_count [OF assms(2-5), of env fs']
  by (rule sound_step_trans)

lemma sound_no_writer_check:
  assumes "count h Write = 0" and "writer (fetchFile env h fs) = None"
    and "no_writer_check env h type fs = (st, fs')"
  shows "sound_step env h fs h fs'"
    and "writer (fetchFile env h fs') = None"
    and "st = Open p \<Longrightarrow> type = Write \<Longrightarrow>
           list_all (\<lambda>r. uuid r = this_uuid h) (readers (fetchFile env h fs'))"
  using assms
  by (auto simp: no_writer_check_def sound_step_def keeps_live_def exclusive_def owner_ok_def
        fetch_write writeFile_frame write_verdict_def kept_readers_id
      split: if_splits)

lemma sound_purge_writer:
  assumes "count h Write = 0" and "writer (fetchFile env h fs) = Some w"
    and "\<not> alive env (pid w)"
  shows "sound_step env h fs h (writeFile h ((fetchFile env h fs)\<lparr>writer := None\<rparr>) fs)"
  using assms
  by (simp add: sound_step_def keeps_live_def exclusive_def owner_ok_def fetch_write
      writeFile_frame)

lemma sound_check:
  assumes "check env h type fs = (st, fs')"
  shows "sound_step env h fs h fs'"
    and "count h Write = 0 \<Longrightarrow> st = Open p \<Longrightarrow> writer (fetchFile env h fs') = None"
    and "count h Write = 0 \<Longrightarrow> st = Open p \<Longrightarrow> type = Write \<Longrightarrow>
           list_all (\<lambda>r. uuid r = this_uuid h) (readers (fetchFile env h fs'))"
proof -
  have "sound_step env h fs h fs' \<and>
        (count h Write = 0 \<longrightarrow> st = Open p \<longrightarrow>
           writer (fetchFile env h fs') = None \<and>
           (type = Write \<longrightarrow>
              list_all (\<lambda>r. uuid r = this_uuid h) (readers (fetchFile env h fs'))))"
  proof (cases "count h Write = 0")
    case False
    with assms show ?thesis
      by (simp add: check_closed sound_step_refl)
  next
    case zero: True
    show ?thesis
    proof (cases "writer (fetchFile env h fs)")
      case None
      with zero assms have nw: "no_writer_check env h type fs = (st, fs')"
        by (simp add: check_closed)
      from sound_no_writer_check [OF zero None nw] show ?thesis
        by simp
    next
      case (Some w)
      show ?thesis
      proof (cases "isActive env (pid w)")
        case True
        with zero Some assms show ?thesis
          by (auto simp: check_closed sound_step_refl)
      next
        case False
        define fs1 where "fs1 = writeFile h ((fetchFile env h fs)\<lparr>writer := None\<rparr>) fs"
        from False have "\<not> alive env (pid w)"
          by (simp add: alive_def)
        with zero Some have s1: "sound_step env h fs h fs1"
          unfolding fs1_def by (rule sound_purge_writer)
        have w1: "writer (fetchFile env h fs1) = None"
          by (simp add: fs1_def fetch_write)
        from zero Some False assms have nw: "no_writer_check env h type fs1 = (st, fs')"
          by (simp add: check_closed fs1_def)
        from sound_no_writer_check [OF zero w1 nw] s1 show ?thesis
          by (auto intro: sound_step_trans)
      qed
    qed
  qed
  then show "sound_step env h fs h fs'"
    and "count h Write = 0 \<Longrightarrow> st = Open p \<Longrightarrow> writer (fetchFile env h fs') = None"
    and "count h Write = 0 \<Longrightarrow> st = Open p \<Longrightarrow> type = Write \<Longrightarrow>
           list_all (\<lambda>r. uuid r = this_uuid h) (readers (fetchFile env h fs'))"
    by simp_all
qed

lemma sound_grant:
  assumes "count h type = 0"
    and "count h Write = 0 \<Longrightarrow> writer (fetchFile env h fs) = None"
    and "type = Write \<Longrightarrow> list_all (\<lambda>r. uuid r = this_uuid h) (readers (fetchFile env h fs))"
  shows "sound_step env h fs (set_count h type 1)
           (writeFile h (addJob env h type rsn (fetchFile env h fs)) fs)"
proof (cases type)
  case Read
  with assms show ?thesis
    by (cases "writer (fetchFile env h fs)")
       (auto simp: sound_step_def keeps_live_def exclusive_def owner_ok_def fetch_write
          writeFile_frame addJob_def)
next
  case Write
  with assms show ?thesis
    by (simp add: sound_step_def keeps_live_def exclusive_def owner_ok_def fetch_write
        writeFile_frame addJob_def)
qed

lemma sound_tryLock_incr:
  assumes "tryLock env h type rsn inc fs = (None, h', fs')"
  shows "sound_step env h fs (set_count h type (count h type + 1)) fs'"
proof (cases "count h type = 0")
  case False
  with assms have "fs' = fs"
    by (simp add: tryLock_def)
  moreover have "sound_step env h fs (set_count h type (count h type + 1)) fs"
    using False by (intro sound_step_count; cases type; simp)
  ultimately show ?thesis by simp
next
  case True
  obtain st fs1 where c: "check env h type fs = (st, fs1)"
    by (cases "check env h type fs")
  from assms True c obtain p where st: "st = Open p"
    by (cases st) (simp_all add: tryLock_def)
  from assms True c st have fs': "fs' = writeFile h (addJob env h type rsn (fetchFile env h fs1)) fs1"
    by (simp add: tryLock_def Let_def)
  note sc = sound_check [OF c]
  have "sound_step env h fs1 (set_count h type 1) fs'"
    unfolding fs' using True sc(2,3) [of p] st by (intro sound_grant) simp_all
  with sc(1) show ?thesis
    using True by (auto intro: sound_step_trans)
qed

lemma sound_tryLock:
  assumes "tryLock env h type rsn inc fs = (err, h', fs')"
  shows "sound_step env h fs h' fs'"
proof (cases err)
  case None
  with assms have "sound_step env h fs (set_count h type (count h type + 1)) fs'"
    using sound_tryLock_incr by blast
  moreover from assms None have "h' = h \<or> h' = set_count h type (count h type + 1)"
    by (auto simp: tryLock_def Let_def split: if_splits prod.splits Status.splits)
  moreover have "sound_step env h fs h fs'"
    if "sound_step env h fs (set_count h type (count h type + 1)) fs'"
    using that by (rule sound_step_weaken) (cases type; simp)+
  ultimately show ?thesis
    by auto
next
  case (Some e)
  with assms have "count h type = 0"
    by (auto simp: tryLock_def split: if_splits)
  with assms Some have "h' = h" and "check env h type fs = (fst (check env h type fs), fs')"
    by (auto simp: tryLock_def Let_def split: prod.splits Status.splits)
  then show ?thesis
    using sound_check(1) by blast
qed

lemma sound_lock_loop:
  assumes "lock_loop env h type rsn cb tmo ri fired (undisturbed draws) fs = Some (res, effs, fs')"
  shows "sound_step env h fs
           (case res of None \<Rightarrow> set_count h type (count h type + 1) | Some e \<Rightarrow> h) fs'"
  using assms
proof (induction draws arbitrary: tmo ri fired fs effs)
  case Nil
  obtain x h0 fs1 where t: "tryLock env h type rsn False fs = (x, h0, fs1)"
    by (cases "tryLock env h type rsn False fs")
  show ?case
  proof (cases x)
    case None
    with Nil t show ?thesis
      by (subst (asm) lock_loop.simps) (auto dest: sound_tryLock_incr)
  next
    case (Some e)
    with t have "h0 = h"
      by (auto simp: tryLock_def Let_def split: if_splits prod.splits Status.splits)
    with t have "sound_step env h fs h fs1"
      using sound_tryLock by blast
    with Nil t Some show ?thesis
      by (subst (asm) lock_loop.simps)
         (auto simp: undisturbed_def once_def Let_def
               split: error.splits option.splits if_splits prod.splits)
  qed
next
  case (Cons u draws)
  obtain x h0 fs1 where t: "tryLock env h type rsn False fs = (x, h0, fs1)"
    by (cases "tryLock env h type rsn False fs")
  show ?case
  proof (cases x)
    case None
    with Cons.prems t show ?thesis
      by (subst (asm) lock_loop.simps) (auto dest: sound_tryLock_incr)
  next
    case (Some e)
    with t have "h0 = h"
      by (auto simp: tryLock_def Let_def split: if_splits prod.splits Status.splits)
    with t have s1: "sound_step env h fs h fs1"
      using sound_tryLock by blast
    have "sound_step env h fs1
           (case res of None \<Rightarrow> set_count h type (count h type + 1) | Some e \<Rightarrow> h) fs'"
      if "lock_loop env h type rsn cb tmo' ri' fired' (undisturbed draws) fs1 = Some (res, effs', fs')"
      for tmo' ri' fired' effs'
      using that by (rule Cons.IH)
    with Cons.prems t Some s1 show ?thesis
      by (subst (asm) lock_loop.simps)
         (auto simp: undisturbed_def once_def Let_def sound_step_refl
               split: error.splits option.splits if_splits prod.splits
               intro: sound_step_trans)
  qed
qed

lemma sound_add:
  assumes "add env h type opts (undisturbed draws) fs = Some (err, effs, h', fs')"
  shows "sound_step env h fs h' fs'"
proof (cases "count h type = 0")
  case False
  with assms have "fs' = fs" "h' = set_count h type (count h type + 1)"
    by (simp_all add: add_def)
  then show ?thesis
    using False by (simp, intro sound_step_count; cases type; simp)
next
  case True
  with assms obtain res where
    l: "lock_loop env h type (opt_reason opts) (fn_or (opt_ifLocked opts) (ifLocked h))
          (num_or (opt_timeout opts) (timeout h))
          (num_or (opt_retryInterval opts) (retryInterval h)) False (undisturbed draws) fs =
        Some (res, effs, fs')"
    and h': "h' = (case res of None \<Rightarrow> set_count h type (count h type + 1) | Some e \<Rightarrow> h)"
    by (auto simp: add_def lock_def Let_def split: option.splits prod.splits)
  from sound_lock_loop [OF l] show ?thesis
    by (simp add: h')
qed

lemma sound_removeJob:
  "sound_step env h fs (set_count h type 0) (removeJob env h type fs)"
proof (cases type)
  case Read
  then show ?thesis
    by (cases "writer (fetchFile env h fs)")
       (auto simp: sound_step_def keeps_live_def exclusive_def owner_ok_def fetch_write
          writeFile_frame removeJob_def removeJobFromFile_def list_all_iff Let_def)
next
  case Write
  then show ?thesis
    by (cases "writer (fetchFile env h fs)")
       (auto simp: sound_step_def keeps_live_def exclusive_def owner_ok_def fetch_write
          writeFile_frame removeJob_def removeJobFromFile_def Let_def)
qed

lemma sound_unlock:
  assumes "unlock env h t fs = (h', fs')"
  shows "sound_step env h fs h' fs'"
proof -
  have typed: "sound_step env h0 fs0 h1 fs1"
    if "unlock env h0 (Some type) fs0 = (h1, fs1)" for h0 fs0 h1 fs1 type
    using that sound_removeJob [of env h0 fs0 type]
    by (auto simp: sound_step_refl split: if_splits)
  show ?thesis
  proof (cases t)
    case None
    obtain h1 fs1 where 1: "unlock env h (Some Read) fs = (h1, fs1)"
      by (cases "unlock env h (Some Read) fs")
    with assms None have 2: "unlock env h1 (Some Write) fs1 = (h', fs')"
      by (simp del: unlock.simps(2))
    from typed [OF 1] typed [OF 2] show ?thesis
      by (rule sound_step_trans)
  next
    case (Some type)
    with assms show ?thesis
      using typed by blast
  qed
qed

lemma sound_remove:
  assumes "remove env h type fs = (h', fs')"
  shows "sound_step env h fs h' fs'"
proof (cases "count h type")
  case 0
  with assms show ?thesis
    by (simp add: remove_def sound_step_refl)
next
  case (Suc k)
  show ?thesis
  proof (cases k)
    case 0
    with Suc assms have "unlock env h (Some type) fs = (h', fs')"
      by (simp add: remove_def)
    then show ?thesis
      by (rule sound_unlock)
  next
    case (Suc j)
    with \<open>count h type = Suc k\<close> assms
    have "fs' = fs" "h' = set_count h type (Suc j)"
      by (simp_all add: remove_def)
    then show ?thesis
      using Suc \<open>count h type = Suc k\<close>
      by (simp, intro sound_step_count; cases type; simp)
  qed
qed

lemma sound_no_writer_checkSync:
  assumes "count h Write = 0" and "writer (fetchFile env h fs) = None"
    and "no_writer_checkSync env h type fs = (r, fs')"
  shows "sound_step env h fs h fs'"
    and "writer (fetchFile env h fs') = None"
    and "r = Inr (Open p) \<Longrightarrow> type = Write \<Longrightarrow>
           list_all (\<lambda>r. uuid r = this_uuid h) (readers (fetchFile env h fs'))"
  using assms
  by (auto simp: no_writer_checkSync_def sound_step_def keeps_live_def exclusive_def owner_ok_def
        fetch_write writeFile_frame write_verdict_def alive_readersSync_id
      split: if_splits)

lemma sound_checkSync:
  assumes "checkSync env h type fs = (r, fs')"
  shows "sound_step env h fs h fs'"
    and "count h Write = 0 \<Longrightarrow> r = Inr (Open p) \<Longrightarrow> writer (fetchFile env h fs') = None"
    and "count h Write = 0 \<Longrightarrow> r = Inr (Open p) \<Longrightarrow> type = Write \<Longrightarrow>
           list_all (\<lambda>r. uuid r = this_uuid h) (readers (fetchFile env h fs'))"
proof -
  have "sound_step env h fs h fs' \<and>
        (count h Write = 0 \<longrightarrow> r = Inr (Open p) \<longrightarrow>
           writer (fetchFile env h fs') = None \<and>
           (type = Write \<longrightarrow>
              list_all (\<lambda>r. uuid r = this_uuid h) (readers (fetchFile env h fs'))))"
  proof (cases "count h Write = 0")
    case False
    with assms show ?thesis
      by (simp add: checkSync_closed sound_step_refl)
  next
    case zero: True
    show ?thesis
    proof (cases "writer (fetchFile env h fs)")
      case None
      with zero assms have nw: "no_writer_checkSync env h type fs = (r, fs')"
        by (simp add: checkSync_closed)
      from sound_no_writer_checkSync [OF zero None nw] show ?thesis
        by simp
    next
      case (Some w)
      show ?thesis
      proof (cases "isActiveSync env (pid w)")
        case True
        with zero Some assms show ?thesis
          by (auto simp: checkSync_closed sound_step_refl)
      next
        case False
        define fs1 where "fs1 = writeFile h ((fetchFile env h fs)\<lparr>writer := None\<rparr>) fs"
        from False have "\<not> alive env (pid w)"
          by (simp add: alive_def)
        with zero Some have s1: "sound_step env h fs h fs1"
          unfolding fs1_def by (rule sound_purge_writer)
        have w1: "writer (fetchFile env h fs1) = None"
          by (simp add: fs1_def fetch_write)
        from zero Some False assms have nw: "no_writer_checkSync env h type fs1 = (r, fs')"
          by (simp add: checkSync_closed fs1_def)
        from sound_no_writer_checkSync [OF zero w1 nw] s1 show ?thesis
          by (auto intro: sound_step_trans)
      qed
    qed
  qed
  then show "sound_step env h fs h fs'"
    and "count h Write = 0 \<Longrightarrow> r = Inr (Open p) \<Longrightarrow> writer (fetchFile env h fs') = None"
    and "count h Write = 0 \<Longrightarrow> r = Inr (Open p) \<Longrightarrow> type = Write \<Longrightarrow>
           list_all (\<lambda>r. uuid r = this_uuid h) (readers (fetchFile env h fs'))"
    by simp_all
qed

lemma sound_lockSync:
  assumes "lockSync env h type rsn fs = (err, h', fs')"
  shows "sound_step env h fs h' fs'"
proof (cases "count h type = 0")
  case False
  with assms have "fs' = fs" "h' = set_count h type (count h type + 1)"
    by (simp_all add: lockSync_def)
  then show ?thesis
    using False by (simp, intro sound_step_count; cases type; simp)
next
  case True
  obtain r fs1 where c: "checkSync env h type fs = (r, fs1)"
    by (cases "checkSync env h type fs")
  note sc = sound_checkSync [OF c]
  show ?thesis
  proof (cases "\<exists>p. r = Inr (Open p)")
    case False
    with assms True c have "h' = h" "fs' = fs1"
      by (auto simp: lockSync_def split: sum.splits Status.splits)
    with sc(1) show ?thesis by simp
  next
    case True
    then obtain p where r: "r = Inr (Open p)" ..
    from assms \<open>count h type = 0\<close> c r
    have "h' = set_count h type 1"
      and fs': "fs' = writeFile h (addJob env h type rsn (fetchFile env h fs1)) fs1"
      by (simp_all add: lockSync_def Let_def writeFileSync_eq fetchFileSync_eq)
    moreover have "sound_step env h fs1 (set_count h type 1)
        (writeFile h (addJob env h type rsn (fetchFile env h fs1)) fs1)"
      using \<open>count h type = 0\<close> sc(2,3) [of p] r by (intro sound_grant) simp_all
    ultimately show ?thesis
      using sc(1) by (auto intro: sound_step_trans)
  qed
qed

lemma sound_call:
  assumes "call env h c fs = Some (h', fs')"
  shows "sound_step env h fs h' fs'"
proof (cases c)
  case (Add type opts draws)
  with assms obtain err effs where
    "add env h type opts (undisturbed draws) fs = Some (err, effs, h', fs')"
    by auto
  then show ?thesis by (rule sound_add)
next
  case (TryLock type rsn inc)
  with assms have "tryLock env h type rsn inc fs = (fst (tryLock env h type rsn inc fs), h', fs')"
    by (cases "tryLock env h type rsn inc fs") simp
  then show ?thesis by (rule sound_tryLock)
next
  case (Remove type)
  with assms show ?thesis by (simp add: sound_remove)
next
  case (Unlock t)
  with assms show ?thesis by (simp add: sound_unlock)
next
  case (Check type)
  with assms have "check env h type fs = (fst (check env h type fs), fs')" and "h' = h"
    by (cases "check env h type fs"; simp)+
  then show ?thesis using sound_check(1) by blast
next
  case (AddSync type rsn)
  with assms have "lockSync env h type rsn fs = (fst (lockSync env h type rsn fs), h', fs')"
    by (cases "lockSync env h type rsn fs") (simp add: addSync_def)
  then show ?thesis by (rule sound_lockSync)
next
  case (RemoveSync type)
  with assms show ?thesis by (simp add: removeSync_eq sound_remove)
next
  case (UnlockSync t)
  with assms show ?thesis by (simp add: unlockSync_eq sound_unlock)
next
  case (CheckSync type)
  with assms have "checkSync env h type fs = (fst (checkSync env h type fs), fs')" and "h' = h"
    by (cases "checkSync env h type fs"; simp)+
  then show ?thesis using sound_checkSync(1) by blast
qed

subsection \<open>A sound step keeps the system consistent\<close>

lemma fetchFile_record_at: "fetchFile env h fs = record_at env fs (file_path h)"
  by (simp add: fetchFile_def record_at_def)

lemma record_at_frame: "fs' path = fs path \<Longrightarrow> record_at env fs' path = record_at env fs path"
  by (simp add: record_at_def readJSON_def)

lemma consistent_step:
  assumes inv: "consistent env s" and h: "sys_handles s u = Some h"
    and live: "alive env (process_pid h)"
    and step: "sound_step env h (sys_files s) h' fs'"
  shows "consistent env \<lparr>sys_files = fs', sys_handles = (sys_handles s)(u := Some h')\<rparr>"
proof -
  let ?f = "record_at env (sys_files s) (file_path h)"
  let ?f' = "record_at env fs' (file_path h)"
  from inv h have u: "this_uuid h = u"
    by (simp add: consistent_def)
  from inv h live have pre: "exclusive ?f" "owner_ok h ?f"
    by (simp_all add: consistent_def)
  from step have ids: "this_uuid h' = this_uuid h" "file_path h' = file_path h"
    "process_pid h' = process_pid h"
    and frame: "\<And>q. q \<noteq> file_path h \<Longrightarrow> fs' q = sys_files s q"
    and kl: "keeps_live env h ?f ?f'"
    and post: "exclusive ?f'" "owner_ok h' ?f'"
    using pre by (simp_all add: sound_step_def fetchFile_record_at file_path_def)
  have excl: "exclusive (record_at env fs' path)" for path
  proof (cases "path = file_path h")
    case True
    with post show ?thesis by simp
  next
    case False
    then have "record_at env fs' path = record_at env (sys_files s) path"
      by (intro record_at_frame frame)
    with inv show ?thesis by (simp add: consistent_def)
  qed
  have own: "owner_ok h2 (record_at env fs' (file_path h2))"
    if h2: "((sys_handles s)(u := Some h')) u2 = Some h2" and l2: "alive env (process_pid h2)"
    for u2 h2
  proof (cases "u2 = u")
    case True
    with h2 post ids show ?thesis by simp
  next
    case False
    with h2 have old: "sys_handles s u2 = Some h2" by simp
    with inv l2 have o2: "owner_ok h2 (record_at env (sys_files s) (file_path h2))"
      and u2: "this_uuid h2 = u2"
      by (simp_all add: consistent_def)
    show ?thesis
    proof (cases "file_path h2 = file_path h")
      case False
      then have "record_at env fs' (file_path h2) = record_at env (sys_files s) (file_path h2)"
        by (intro record_at_frame frame)
      with o2 show ?thesis by simp
    next
      case True
      with o2 kl l2 u2 u \<open>u2 \<noteq> u\<close> show ?thesis
        by (auto simp: owner_ok_def keeps_live_def split: option.splits)
    qed
  qed
  from inv h ids u excl own show ?thesis
    by (auto simp: consistent_def)
qed

lemma perform_consistent:
  assumes "consistent env s" and "perform env s e = Some s'"
    and "case sys_handles s (fst e) of None \<Rightarrow> True | Some h \<Rightarrow> alive env (process_pid h)"
  shows "consistent env s'"
    and "\<And>u. map_option process_pid (sys_handles s' u) = map_option process_pid (sys_handles s u)"
proof -
  obtain u c where e: "e = (u, c)" by (cases e)
  from assms(2) e obtain h h' fs' where
    h: "sys_handles s u = Some h" and c: "call env h c (sys_files s) = Some (h', fs')"
    and s': "s' = \<lparr>sys_files = fs', sys_handles = (sys_handles s)(u := Some h')\<rparr>"
    by (auto simp: perform_def split: option.splits)
  from assms(3) e h have live: "alive env (process_pid h)" by simp
  note step = sound_call [OF c]
  from consistent_step [OF assms(1) h live step] show "consistent env s'"
    by (simp add: s')
  from step have "process_pid h' = process_pid h"
    by (simp add: sound_step_def)
  with h show "map_option process_pid (sys_handles s' u') = map_option process_pid (sys_handles s u')"
    for u'
    by (simp add: s')
qed

lemma actors_alive_cong:
  assumes "\<And>u. map_option process_pid (sys_handles s' u) = map_option process_pid (sys_handles s u)"
  shows "actors_alive env s' es = actors_alive env s es"
proof -
  have "(case sys_handles s' u of None \<Rightarrow> True | Some h \<Rightarrow> alive env (process_pid h)) =
        (case sys_handles s u of None \<Rightarrow> True | Some h \<Rightarrow> alive env (process_pid h))" for u
    using assms [of u] by (auto split: option.splits)
  then show ?thesis
    by (simp add: actors_alive_def)
qed

subsection \<open>The claim\<close>

text \<open>
  C1, as the claim states it, fails: a handle that holds a read lock is granted the write
  lock when it is the only reader (and a handle that holds the write lock is granted a
  read lock), so the record holds a writer job and a reader job at once. Here \<open>handle_A\<close>
  calls \<open>add('read')\<close> and then \<open>add('write')\<close>.
\<close>

theorem writer_beside_own_reader_counterexample:
  "map_option (observe env0)
     (run env0 two_handles [(''A'', Add Read no_wait []), (''A'', Add Write no_wait [])]) =
   Some (\<lparr>version = ''1.4.1'', writer = Some job_A, readers = [job_A]\<rparr>,
         Some (handle_A\<lparr>count_read := 1, count_write := 1\<rparr>), Some handle_B)"
  by (simp add: liveness_def env0_def no_options_def handle_A_def handle_B_def
        no_files_def job_A_def retry_opts_def two_handles_def no_wait_def observe_def
        new_RWLockfile_def fn_or_def num_or_def file_path_def perform_def record_at_def
        undisturbed_def call_defs store_defs)

lemma run_contention:
  "map_option (observe env0) (run env0 two_handles contention) =
   Some (\<lparr>version = ''1.4.1'', writer = Some job_A, readers = [job_A]\<rparr>,
         Some (handle_A\<lparr>count_read := 1, count_write := 1\<rparr>), Some handle_B)"
  by (simp add: liveness_def env0_def no_options_def handle_A_def handle_B_def
        no_files_def job_A_def retry_opts_def two_handles_def no_wait_def contention_def
        observe_def new_RWLockfile_def fn_or_def num_or_def file_path_def perform_def
        record_at_def undisturbed_def call_defs store_defs)

lemma consistent_two_handles: "consistent env0 two_handles"
  by (auto simp: consistent_def two_handles_def exclusive_def owner_ok_def
        record_at_def readJSON_def liveness_def env0_def no_options_def handle_A_def
        handle_B_def no_files_def two_handles_def new_RWLockfile_def fn_or_def num_or_def
        file_path_def split: if_splits)

lemma alive_contention: "actors_alive env0 two_handles contention"
  by (simp add: actors_alive_def alive_def isActive_def isActiveSync_def liveness_def
        env0_def no_options_def handle_A_def handle_B_def no_files_def retry_opts_def
        two_handles_def no_wait_def contention_def new_RWLockfile_def fn_or_def num_or_def
        file_path_def perform_def record_at_def undisturbed_def)

text \<open>
  C1, amended. Consistency is kept by every sequence of calls (\<open>add\<close>, \<open>tryLock\<close>, \<open>remove\<close>,
  \<open>unlock\<close>, \<open>check\<close> and their synchronous forms) made by handles whose process the
  liveness tests report alive. So for every path the record never holds a writer job
  together with a reader job of another handle; it has room for one writer job only.
\<close>

theorem mutual_exclusion_preserved:
  assumes "consistent env s" and "actors_alive env s es" and "run env s es = Some s'"
  shows "consistent env s' \<and> exclusive (record_at env (sys_files s') path)"
proof -
  from assms have "consistent env s'"
  proof (induction es arbitrary: s)
    case Nil
    then show ?case by simp
  next
    case (Cons e es)
    from Cons.prems(3) obtain s1 where p: "perform env s e = Some s1"
      and r: "run env s1 es = Some s'"
      by (auto split: option.splits)
    from Cons.prems(2) have
      live: "case sys_handles s (fst e) of None \<Rightarrow> True | Some h \<Rightarrow> alive env (process_pid h)"
      and rest: "actors_alive env s es"
      by (simp_all add: actors_alive_def)
    note pc = perform_consistent [OF Cons.prems(1) p live]
    from rest have a: "actors_alive env s1 es"
      using actors_alive_cong [OF pc(2)] by simp
    from pc(1) a r show ?case
      by (rule Cons.IH)
  qed
  then show ?thesis
    by (simp add: consistent_def)
qed

theorem mutual_exclusion_preserved_witness:
  "consistent env0 two_handles \<and>
   actors_alive env0 two_handles contention \<and>
   map_option (observe env0) (run env0 two_handles contention) =
     Some (\<lparr>version = ''1.4.1'', writer = Some job_A, readers = [job_A]\<rparr>,
           Some (handle_A\<lparr>count_read := 1, count_write := 1\<rparr>), Some handle_B) \<and>
   exclusive \<lparr>version = ''1.4.1'', writer = Some job_A, readers = [job_A]\<rparr>"
proof -
  from run_contention obtain s' where
    r: "run env0 two_handles contention = Some s'"
    and o: "record_at env0 (sys_files s') ''/tmp/x.lock'' =
      \<lparr>version = ''1.4.1'', writer = Some job_A, readers = [job_A]\<rparr>"
    by (auto simp: observe_def)
  from mutual_exclusion_preserved [OF consistent_two_handles alive_contention r, of "''/tmp/x.lock''"]
  have "exclusive \<lparr>version = ''1.4.1'', writer = Some job_A, readers = [job_A]\<rparr>"
    by (simp add: o)
  with consistent_two_handles alive_contention run_contention show ?thesis
    by simp
qed

text \<open>
  The liveness tests have to be right about the handles that act. Where the test throws
  for the process of a running handle, another handle reclaims the write lock that it
  holds; its next \<open>add('read')\<close> is answered Open on the strength of its own counter and
  puts its reader job beside the other handle's writer job.
\<close>

lemma exclusion_needs_reliable_liveness:
  "consistent env0 three_handles \<and>
   \<not> actors_alive env0 three_handles reclaim \<and>
   map_option (\<lambda>s. exclusive (record_at env0 (sys_files s) ''/tmp/x.lock''))
     (run env0 three_handles reclaim) = Some False"
proof (intro conjI)
  show "consistent env0 three_handles"
    by (auto simp: consistent_def exclusive_def owner_ok_def readJSON_def liveness_def
          env0_def no_options_def handle_A_def handle_B_def handle_C_def no_files_def retry_opts_def
          no_wait_def three_handles_def reclaim_def new_RWLockfile_def fn_or_def
          num_or_def file_path_def perform_def record_at_def undisturbed_def split:
          if_splits)
  show "\<not> actors_alive env0 three_handles reclaim"
    by (simp add: actors_alive_def alive_def isActive_def liveness_def env0_def
          no_options_def handle_A_def handle_B_def handle_C_def no_files_def retry_opts_def no_wait_def
          three_handles_def reclaim_def new_RWLockfile_def fn_or_def num_or_def
          file_path_def perform_def record_at_def undisturbed_def)
  show "map_option (\<lambda>s. exclusive (record_at env0 (sys_files s) ''/tmp/x.lock''))
     (run env0 three_handles reclaim) = Some False"
    by (simp add: exclusive_def liveness_def env0_def no_options_def handle_A_def handle_B_def
          handle_C_def no_files_def retry_opts_def no_wait_def three_handles_def
          reclaim_def new_RWLockfile_def fn_or_def num_or_def file_path_def perform_def
          record_at_def undisturbed_def call_defs store_defs)
qed

text \<open>
  Between the attempts of a waiting \<open>add\<close> other handles may act. Such a run is a sequence
  of calls as well: every attempt is a call of \<open>tryLock\<close>, and the attempt that succeeds,
  with the increment that \<open>add\<close> makes after it, is \<open>tryLock\<close> with \<open>inc = true\<close>.
\<close>

lemma attempt_of_add:
  "tryLock env h type rsn True fs =
     (case tryLock env h type rsn False fs of
        (None, h', fs') \<Rightarrow> (None, set_count h type (count h type + 1), fs')
      | (Some err, h', fs') \<Rightarrow> (Some err, h', fs'))"
  by (simp add: tryLock_def Let_def split: prod.splits Status.splits)

section \<open>C2: forced unlock\<close>

lemma removeJobFromFile_released: "\<not> holds_job (removeJobFromFile h type f) h type"
  by (cases type; cases "writer f") (simp_all add: holds_job_def removeJobFromFile_def)

lemma removeJob_released: "\<not> holds_job (fetchFile env h (removeJob env h type fs)) h type"
  using removeJobFromFile_released [of h type "fetchFile env h fs"]
  by (cases type) (simp_all add: holds_job_def fetch_removeJob)

lemma removeJob_keeps_released:
  "\<not> holds_job (fetchFile env h fs) h type \<Longrightarrow>
     \<not> holds_job (fetchFile env h (removeJob env h type' fs)) h type"
  by (cases type; cases type'; cases "writer (fetchFile env h fs)")
     (simp_all add: holds_job_def fetch_removeJob removeJobFromFile_def)

text \<open>
  C2, as the claim states it, fails: \<open>unlock\<close> returns at once when the counter is 0, also
  when the record holds a job of the handle. \<open>tryLock\<close> with \<open>inc = false\<close> writes the
  reader job of \<open>handle_A\<close> and leaves its counter at 0; \<open>unlock('read')\<close> and
  \<open>unlockSync('read')\<close> then leave the job in the record.
\<close>

theorem unlock_uncounted_job_counterexample:
  "tryLock env0 handle_A Read None False no_files = (None, handle_A, reader_A_files) \<and>
   count handle_A Read = 0 \<and>
   holds_job (fetchFile env0 handle_A reader_A_files) handle_A Read \<and>
   unlock env0 handle_A (Some Read) reader_A_files = (handle_A, reader_A_files) \<and>
   unlockSync env0 handle_A (Some Read) reader_A_files = (None, handle_A, reader_A_files)"
  by (simp add: tryLock_def check.simps Let_def statusFromFile_def addJob_def
        holds_job_def liveness_def env0_def no_options_def handle_A_def no_files_def
        reader_A_files_def new_RWLockfile_def fn_or_def num_or_def file_path_def store_defs)

text \<open>
  C2, amended. \<open>unlock(type)\<close> leaves \<open>localCount[type]\<close> at 0. When the counter is 0 it
  returns without touching the file system. When the counter is greater than 0, whatever
  its value, it sets the counter to 0 and rewrites the record without the handle's jobs
  of that type (\<open>removeJobFromFile\<close>), so that the record holds no such job afterwards.
  With the type omitted both counters end at 0 and the jobs of each type whose counter
  was greater than 0 are gone. \<open>unlockSync\<close> throws nothing and returns the same handle
  and file system.
\<close>

theorem unlock_releases_when_counted:
  "count (fst (unlock env h (Some type) fs)) type = 0 \<and>
   (count h type = 0 \<longrightarrow> unlock env h (Some type) fs = (h, fs)) \<and>
   (0 < count h type \<longrightarrow>
      fst (unlock env h (Some type) fs) = set_count h type 0 \<and>
      \<not> holds_job (fetchFile env h (snd (unlock env h (Some type) fs))) h type \<and>
      writer (fetchFile env h (snd (unlock env h (Some type) fs))) =
        writer (removeJobFromFile h type (fetchFile env h fs)) \<and>
      readers (fetchFile env h (snd (unlock env h (Some type) fs))) =
        readers (removeJobFromFile h type (fetchFile env h fs))) \<and>
   count (fst (unlock env h None fs)) Read = 0 \<and>
   count (fst (unlock env h None fs)) Write = 0 \<and>
   (0 < count h Read \<longrightarrow> \<not> holds_job (fetchFile env h (snd (unlock env h None fs))) h Read) \<and>
   (0 < count h Write \<longrightarrow> \<not> holds_job (fetchFile env h (snd (unlock env h None fs))) h Write) \<and>
   unlockSync env h t fs = (None, unlock env h t fs)"
proof (intro conjI impI)
  show "unlockSync env h t fs = (None, unlock env h t fs)"
    by (rule unlockSync_eq)
next
  assume "0 < count h Read"
  then show "\<not> holds_job (fetchFile env h (snd (unlock env h None fs))) h Read"
    by (simp add: Let_def removeJob_released removeJob_keeps_released removeJob_count_upd)
next
  assume "0 < count h Write"
  then show "\<not> holds_job (fetchFile env h (snd (unlock env h None fs))) h Write"
    by (simp add: Let_def removeJob_released removeJob_count_upd)
qed (simp_all add: Let_def removeJob_released fetch_removeJob count_set_count
       del: unlock.simps(1),
     simp_all add: Let_def)

theorem unlock_releases_when_counted_witness:
  "0 < count (handle_A\<lparr>count_read := 3\<rparr>) Read \<and>
   holds_job (fetchFile env0 (handle_A\<lparr>count_read := 3\<rparr>) reader_A_files)
     (handle_A\<lparr>count_read := 3\<rparr>) Read \<and>
   fst (unlock env0 (handle_A\<lparr>count_read := 3\<rparr>) (Some Read) reader_A_files) = handle_A \<and>
   \<not> holds_job
       (fetchFile env0 (handle_A\<lparr>count_read := 3\<rparr>)
          (snd (unlock env0 (handle_A\<lparr>count_read := 3\<rparr>) (Some Read) reader_A_files)))
       (handle_A\<lparr>count_read := 3\<rparr>) Read \<and>
   snd (unlock env0 (handle_A\<lparr>count_read := 3\<rparr>) (Some Read) reader_A_files) = no_files"
  using unlock_releases_when_counted
          [of env0 "handle_A\<lparr>count_read := 3\<rparr>" Read reader_A_files None]
  by (simp add: removeJob_def removeJobFromFile_def Let_def holds_job_def liveness_def
        env0_def no_options_def handle_A_def no_files_def reader_A_files_def
        new_RWLockfile_def fn_or_def num_or_def file_path_def store_defs)

section \<open>C3: stale writers\<close>

text \<open>
  C3, as the claim states it, fails: a handle that counts a write lock of its own is
  answered Open before the record is looked at, so a stale writer job of another handle
  stays in the record. Here \<open>handle_C\<close> takes the write lock; \<open>handle_B\<close>, for which the
  liveness test of process 7 throws, reclaims it and takes it; then process 200 dies, and
  \<open>check('write')\<close> by \<open>handle_C\<close>, which still counts its write lock, answers Open and
  leaves the writer job of \<open>handle_B\<close> in the record.
\<close>

theorem stale_writer_kept_counterexample:
  "map_option survey
     (run env0 three_handles [(''C'', Add Write no_wait []), (''B'', Add Write no_wait [])]) =
     Some (writer_B_files, Some (handle_C\<lparr>count_write := 1\<rparr>)) \<and>
   writer (fetchFile env1 (handle_C\<lparr>count_write := 1\<rparr>) writer_B_files) = Some job_B \<and>
   \<not> isActive env1 (pid job_B) \<and>
   uuid job_B \<noteq> this_uuid (handle_C\<lparr>count_write := 1\<rparr>) \<and>
   check env1 (handle_C\<lparr>count_write := 1\<rparr>) Write writer_B_files =
     (Open ''/tmp/x.lock'', writer_B_files)"
  by (simp add: liveness_def env0_def no_options_def handle_A_def handle_B_def handle_C_def
        no_files_def retry_opts_def no_wait_def three_handles_def job_B_def
        writer_B_files_def liveness_later_def env1_def survey_def new_RWLockfile_def
        fn_or_def num_or_def file_path_def perform_def undisturbed_def call_defs store_defs)

text \<open>
  C3, amended. If the record holds a writer job whose process is not alive and the
  handle's own \<open>localCount.write\<close> is 0, then \<open>check\<close> writes the record back without the
  writer and classifies again from the start on what it wrote; the record it leaves has
  no writer; a read request is answered Open, and so is a write request when every
  reader is the handle's own or belongs to a dead process with a process id other than
  0. A liveness test that throws counts as not alive.
\<close>

theorem stale_writer_reclaimed:
  assumes "count h Write = 0" and "writer (fetchFile env h fs) = Some job"
    and "\<not> isActive env (pid job)"
  shows
    "check env h type fs =
       check env h type (writeFile h ((fetchFile env h fs)\<lparr>writer := None\<rparr>) fs) \<and>
     writer (fetchFile env h (snd (check env h type fs))) = None \<and>
     fst (check env h Read fs) = Open (file_path h) \<and>
     (list_all (\<lambda>j. uuid j = this_uuid h \<or> (\<not> isActive env (pid j) \<and> pid j \<noteq> 0))
        (readers (fetchFile env h fs)) \<longrightarrow>
      fst (check env h Write fs) = Open (file_path h)) \<and>
     (isProcessActive_isActive env p = Inl err \<longrightarrow> \<not> isActive env p)"
proof -
  define fs1 where "fs1 = writeFile h ((fetchFile env h fs)\<lparr>writer := None\<rparr>) fs"
  have step: "check env h t fs = check env h t fs1" for t
    unfolding fs1_def using assms by (rule check_dead_writer)
  have w1: "writer (fetchFile env h fs1) = None"
    and r1: "readers (fetchFile env h fs1) = readers (fetchFile env h fs)"
    by (simp_all add: fs1_def fetch_write)
  have rd: "check env h Read fs1 = (Open (file_path h), fs1)"
    using w1 by (rule check_Read_no_writer)
  note wr = check_Write_no_writer [OF assms(1) w1]
  have "writer (fetchFile env h (snd (check env h type fs1))) = None"
    by (cases type) (simp_all add: rd wr w1 fetch_write)
  moreover have "fst (check env h Write fs1) = Open (file_path h)"
    if "list_all (\<lambda>j. uuid j = this_uuid h \<or> (\<not> isActive env (pid j) \<and> pid j \<noteq> 0))
          (readers (fetchFile env h fs))"
    using that
    by (auto simp: wr r1 write_verdict_def kept_readers_filter list_all_iff)
  moreover have "\<not> isActive env p" if "isProcessActive_isActive env p = Inl err"
    using that by (simp add: isActive_def)
  ultimately show ?thesis
    by (simp add: step rd flip: fs1_def)
qed

theorem stale_writer_reclaimed_witness:
  "count handle_B Write = 0 \<and>
   writer (fetchFile env0 handle_B stale_writer_files) = Some job_C \<and>
   isProcessActive_isActive env0 (pid job_C) = Inl (Failure ''EPERM'') \<and>
   \<not> isActive env0 (pid job_C) \<and>
   check env0 handle_B Write stale_writer_files = (Open ''/tmp/x.lock'', no_files) \<and>
   check env0 handle_B Read stale_writer_files = (Open ''/tmp/x.lock'', no_files)"
  using stale_writer_reclaimed [of handle_B env0 stale_writer_files job_C Write 7 "Failure ''EPERM''"]
        stale_writer_reclaimed [of handle_B env0 stale_writer_files job_C Read 7 "Failure ''EPERM''"]
  by (simp add: check.simps statusFromFile_def isActive_def liveness_def env0_def
        no_options_def handle_B_def no_files_def job_C_def stale_writer_files_def
        new_RWLockfile_def fn_or_def num_or_def file_path_def store_defs)

section \<open>C4: reentrancy\<close>

lemma add_held:
  "0 < count h type \<Longrightarrow>
     add env h type opts rounds fs = Some (None, [], set_count h type (count h type + 1), fs)"
  by (simp add: add_def)

lemma lock_loop_granted:
  "lock_loop env h type rsn cb tmo ri fired rounds fs = Some (None, effs, fs') \<Longrightarrow>
     \<exists>fs0 h'. tryLock env h type rsn False fs0 = (None, h', fs')"
proof (induction rounds arbitrary: tmo ri fired fs effs)
  case Nil
  then show ?case
    by (subst (asm) lock_loop.simps)
       (auto simp: once_def Let_def split: prod.splits option.splits error.splits if_splits)
next
  case (Cons r rounds)
  from Cons.prems show ?case
    by (subst (asm) lock_loop.simps)
       (auto simp: once_def Let_def split: prod.splits option.splits error.splits if_splits
             dest: Cons.IH)
qed

lemma tryLock_granted:
  assumes "count h type = 0" and "tryLock env h type rsn inc fs0 = (None, h', fs1)"
  shows "fst (check env h type fs0) = Open (file_path h) \<and>
         h' = (if inc then set_count h type 1 else h) \<and>
         fs1 = writeFile h (addJob env h type rsn (fetchFile env h (snd (check env h type fs0))))
                 (snd (check env h type fs0))"
proof -
  obtain status fsp where c: "check env h type fs0 = (status, fsp)"
    by (cases "check env h type fs0")
  from assms c obtain p where "status = Open p"
    by (cases status) (simp_all add: tryLock_def)
  with c have "status = Open (file_path h)"
    using check_Open_path by blast
  then show ?thesis
    using assms c by (auto simp: tryLock_def Let_def)
qed

lemma adds_held:
  "0 < count h type \<Longrightarrow>
     adds n env h type opts rounds fs = Some ([], set_count h type (count h type + n), fs)"
  by (induction n arbitrary: h rounds)
     (simp_all add: add_held set_count_same set_count_twice count_set_count)

lemma add_first:
  assumes "count h type = 0" and "add env h type opts rounds fs = Some (None, effs, h', fs')"
  shows "h' = set_count h type 1 \<and>
         (\<exists>fs0 h0. tryLock env h type (opt_reason opts) False fs0 = (None, h0, fs'))"
  using assms
  by (auto simp: add_def lock_def Let_def split: option.splits prod.splits
           dest: lock_loop_granted)

lemma remove_held:
  "1 < count h type \<Longrightarrow> remove env h type fs = (set_count h type (count h type - 1), fs)"
  by (cases "count h type"; simp add: remove_def split: nat.splits)

lemma remove_last:
  "count h type = 1 \<Longrightarrow> remove env h type fs = (set_count h type 0, removeJob env h type fs)"
  by (simp add: remove_def)

lemma removes_held:
  "k < count h type \<Longrightarrow> removes k env h type fs = (set_count h type (count h type - k), fs)"
  by (induction k arbitrary: h)
     (simp_all add: remove_held set_count_same set_count_twice count_set_count)

lemma removes_last:
  "count h type = Suc k \<Longrightarrow>
     removes (Suc k) env h type fs = (set_count h type 0, removeJob env h type fs)"
proof (induction k arbitrary: h)
  case 0
  then show ?case by (simp add: remove_last)
next
  case (Suc k)
  then have "remove env h type fs = (set_count h type (Suc k), fs)"
    by (simp add: remove_held)
  moreover have "removes (Suc k) env (set_count h type (Suc k)) type fs =
      (set_count h type 0, removeJob env h type fs)"
    using Suc.IH [of "set_count h type (Suc k)"]
    by (simp add: count_set_count set_count_twice removeJob_set_count)
  ultimately show ?case
    by (subst removes.simps) simp
qed

lemma removes_all:
  assumes "0 < count h type"
  shows "removes (count h type) env h type fs = (set_count h type 0, removeJob env h type fs)"
proof -
  from assms obtain k where "count h type = Suc k"
    by (cases "count h type") simp_all
  then show ?thesis
    using removes_last [of h type k env fs] by simp
qed

lemma fetch_grant_Read:
  "writer (fetchFile env h (writeFile h (addJob env h Read rsn f) fs)) = writer f \<and>
   readers (fetchFile env h (writeFile h (addJob env h Read rsn f) fs)) =
     readers f @ [new_job env h rsn]"
  by (simp add: fetch_write addJob_def new_job_def)

text \<open>
  C4. Let a handle with a read counter of 0 call \<open>add('read')\<close> \<open>N \<ge> 1\<close> times, every call
  returning without an error, and then \<open>remove('read')\<close> \<open>N\<close> times. The first \<open>add\<close> makes all
  the attempts there are and ends with one successful \<open>tryLock\<close>, which appends exactly one
  job, the handle's, to the readers of the record as \<open>check\<close> left it, and keeps the writer;
  every later \<open>add\<close> only raises the counter and leaves the file system as the first left
  it. Each of the first \<open>N - 1\<close> calls of \<open>remove\<close> only lowers the counter; the last one
  sets it to 0 and rewrites the record without the handle's reader job.
\<close>

theorem reentrant_read:
  assumes "count h Read = 0" and "0 < N"
    and "adds N env h Read opts rounds fs = Some (effs, hN, fsN)"
  shows
    "hN = h\<lparr>count_read := N\<rparr> \<and>
     (\<forall>k. 0 < k \<and> k \<le> N \<longrightarrow>
        adds k env h Read opts rounds fs = Some (effs, h\<lparr>count_read := k\<rparr>, fsN)) \<and>
     (\<exists>fs0. fst (check env h Read fs0) = Open (file_path h) \<and>
        fsN = writeFile h
                (addJob env h Read (opt_reason opts)
                   (fetchFile env h (snd (check env h Read fs0))))
                (snd (check env h Read fs0)) \<and>
        writer (fetchFile env h fsN) = writer (fetchFile env h (snd (check env h Read fs0))) \<and>
        readers (fetchFile env h fsN) =
          readers (fetchFile env h (snd (check env h Read fs0))) @
            [new_job env h (opt_reason opts)]) \<and>
     (\<forall>k. k < N \<longrightarrow> removes k env hN Read fsN = (h\<lparr>count_read := N - k\<rparr>, fsN)) \<and>
     removes N env hN Read fsN = (h, removeJob env h Read fsN) \<and>
     writer (fetchFile env h (removeJob env h Read fsN)) = writer (fetchFile env h fsN) \<and>
     readers (fetchFile env h (removeJob env h Read fsN)) =
       filter (\<lambda>r. uuid r \<noteq> this_uuid h) (readers (fetchFile env h fsN))"
proof -
  from assms(2) obtain n where N: "N = Suc n"
    by (cases N) simp_all
  from assms(3) obtain effs1 h1 fs1 where
    first: "add env h Read opts rounds fs = Some (None, effs1, h1, fs1)"
    unfolding N by (auto split: option.splits prod.splits)
  from add_first [OF assms(1) first] obtain fs0 h0 where
    h1: "h1 = h\<lparr>count_read := 1\<rparr>"
    and grant: "tryLock env h Read (opt_reason opts) False fs0 = (None, h0, fs1)"
    by auto
  have rest: "adds m env h1 Read opts [] fs1 = Some ([], h\<lparr>count_read := Suc m\<rparr>, fs1)" for m
    using adds_held [of h1 Read m env opts "[]" fs1] by (simp add: h1)
  have upto: "adds (Suc m) env h Read opts rounds fs = Some (effs1, h\<lparr>count_read := Suc m\<rparr>, fs1)"
    for m
    by (simp add: first rest)
  from assms(3) have res: "effs = effs1" "hN = h\<lparr>count_read := N\<rparr>" "fsN = fs1"
    unfolding N upto by simp_all
  have a: "\<forall>k. 0 < k \<and> k \<le> N \<longrightarrow>
        adds k env h Read opts rounds fs = Some (effs, h\<lparr>count_read := k\<rparr>, fsN)"
  proof (intro allI impI)
    fix k assume "0 < k \<and> k \<le> N"
    then obtain m where "k = Suc m" by (cases k) simp_all
    then show "adds k env h Read opts rounds fs = Some (effs, h\<lparr>count_read := k\<rparr>, fsN)"
      using upto [of m] res by simp
  qed
  note g = tryLock_granted [OF assms(1) grant]
  have b: "\<exists>fs0. fst (check env h Read fs0) = Open (file_path h) \<and>
        fsN = writeFile h
                (addJob env h Read (opt_reason opts)
                   (fetchFile env h (snd (check env h Read fs0))))
                (snd (check env h Read fs0)) \<and>
        writer (fetchFile env h fsN) = writer (fetchFile env h (snd (check env h Read fs0))) \<and>
        readers (fetchFile env h fsN) =
          readers (fetchFile env h (snd (check env h Read fs0))) @
            [new_job env h (opt_reason opts)]"
    using g res(3) fetch_grant_Read by (intro exI [of _ fs0]) simp
  have c: "\<forall>k. k < N \<longrightarrow> removes k env hN Read fsN = (h\<lparr>count_read := N - k\<rparr>, fsN)"
    using removes_held [of _ hN Read env fsN] by (simp add: res(2))
  have d: "removes N env hN Read fsN = (h, removeJob env h Read fsN)"
    using removes_all [of hN Read env fsN] assms(1,2)
    by (simp add: res(2) removeJob_count_upd)
  show ?thesis
    using res(2) a b c d
    by (simp add: fetch_removeJob removeJobFromFile_def)
qed

theorem reentrant_read_witness:
  "count handle_A Read = 0 \<and> (0::nat) < 3 \<and>
   adds 3 env0 handle_A Read retry_opts [] no_files =
     Some ([Attempt], handle_A\<lparr>count_read := 3\<rparr>, reader_A_files) \<and>
   adds 1 env0 handle_A Read retry_opts [] no_files =
     Some ([Attempt], handle_A\<lparr>count_read := 1\<rparr>, reader_A_files) \<and>
   adds 2 env0 handle_A Read retry_opts [] no_files =
     Some ([Attempt], handle_A\<lparr>count_read := 2\<rparr>, reader_A_files) \<and>
   readers (fetchFile env0 handle_A reader_A_files) = [new_job env0 handle_A None] \<and>
   removes 1 env0 (handle_A\<lparr>count_read := 3\<rparr>) Read reader_A_files =
     (handle_A\<lparr>count_read := 2\<rparr>, reader_A_files) \<and>
   removes 2 env0 (handle_A\<lparr>count_read := 3\<rparr>) Read reader_A_files =
     (handle_A\<lparr>count_read := 1\<rparr>, reader_A_files) \<and>
   removes 3 env0 (handle_A\<lparr>count_read := 3\<rparr>) Read reader_A_files = (handle_A, no_files)"
proof -
  have zero: "count handle_A Read = 0"
    by (simp add: liveness_def env0_def no_options_def handle_A_def no_files_def
          reader_A_files_def retry_opts_def new_RWLockfile_def fn_or_def num_or_def
          file_path_def)
  have run: "adds 3 env0 handle_A Read retry_opts [] no_files =
      Some ([Attempt], handle_A\<lparr>count_read := 3\<rparr>, reader_A_files)"
    by (simp add: numeral_3_eq_3 add_def lock_def lock_loop.simps tryLock_def
          check.simps Let_def statusFromFile_def addJob_def liveness_def env0_def
          no_options_def handle_A_def no_files_def reader_A_files_def retry_opts_def
          new_RWLockfile_def fn_or_def num_or_def file_path_def store_defs)
  have pos: "(0::nat) < 3"
    by simp
  note r = reentrant_read [OF zero pos run]
  note adds_k = r [THEN conjunct2, THEN conjunct1, rule_format]
  note removes_k =
    r [THEN conjunct2, THEN conjunct2, THEN conjunct2, THEN conjunct1, rule_format]
  note removes_N =
    r [THEN conjunct2, THEN conjunct2, THEN conjunct2, THEN conjunct2, THEN conjunct1]
  have "removeJob env0 handle_A Read reader_A_files = no_files"
    by (simp add: removeJob_def removeJobFromFile_def Let_def liveness_def env0_def
          no_options_def handle_A_def no_files_def reader_A_files_def retry_opts_def
          new_RWLockfile_def fn_or_def num_or_def file_path_def store_defs)
  with removes_N have "removes 3 env0 (handle_A\<lparr>count_read := 3\<rparr>) Read reader_A_files =
      (handle_A, no_files)"
    by (simp only:)
  moreover have "readers (fetchFile env0 handle_A reader_A_files) = [new_job env0 handle_A None]"
    by (simp add: new_job_def liveness_def env0_def no_options_def handle_A_def
          no_files_def reader_A_files_def retry_opts_def new_RWLockfile_def fn_or_def
          num_or_def file_path_def store_defs)
  moreover have "adds 1 env0 handle_A Read retry_opts [] no_files =
      Some ([Attempt], handle_A\<lparr>count_read := 1\<rparr>, reader_A_files)"
    by (rule adds_k) simp
  moreover have "adds 2 env0 handle_A Read retry_opts [] no_files =
      Some ([Attempt], handle_A\<lparr>count_read := 2\<rparr>, reader_A_files)"
    by (rule adds_k) simp
  moreover have "removes 1 env0 (handle_A\<lparr>count_read := 3\<rparr>) Read reader_A_files =
      (handle_A\<lparr>count_read := 2\<rparr>, reader_A_files)"
    using removes_k [of 1] by simp
  moreover have "removes 2 env0 (handle_A\<lparr>count_read := 3\<rparr>) Read reader_A_files =
      (handle_A\<lparr>count_read := 1\<rparr>, reader_A_files)"
    using removes_k [of 2] by simp
  ultimately show ?thesis
    using zero run by (simp only: pos simp_thms)
qed

section \<open>C5: self-ownership\<close>

text \<open>
  C5. Whenever a handle's own \<open>localCount.write\<close> is greater than 0, \<open>check('read')\<close> and
  \<open>check('write')\<close> on that handle return Open and leave the file system as it was,
  whatever the file system holds: \<open>_statusFromFile\<close> answers Open for every record. The
  same holds of \<open>checkSync\<close>.
\<close>

theorem check_self_ownership:
  "0 < count h Write \<Longrightarrow>
     statusFromFile h Read f = Open (file_path h) \<and>
     statusFromFile h Write f = Open (file_path h) \<and>
     check env h Read fs = (Open (file_path h), fs) \<and>
     check env h Write fs = (Open (file_path h), fs) \<and>
     checkSync env h Read fs = (Inr (Open (file_path h)), fs) \<and>
     checkSync env h Write fs = (Inr (Open (file_path h)), fs)"
  by (simp add: check.simps checkSync.simps statusFromFile_def)

theorem check_self_ownership_witness:
  "0 < count (handle_B\<lparr>count_write := 1\<rparr>) Write \<and>
   writer (fetchFile env0 (handle_B\<lparr>count_write := 1\<rparr>) writer_A_files) = Some job_A \<and>
   check env0 (handle_B\<lparr>count_write := 1\<rparr>) Read writer_A_files =
     (Open ''/tmp/x.lock'', writer_A_files) \<and>
   check env0 (handle_B\<lparr>count_write := 1\<rparr>) Write writer_A_files =
     (Open ''/tmp/x.lock'', writer_A_files) \<and>
   check env0 (handle_B\<lparr>count_write := 1\<rparr>) Write no_files = (Open ''/tmp/x.lock'', no_files)"
  using check_self_ownership [of "handle_B\<lparr>count_write := 1\<rparr>" undefined env0 writer_A_files]
        check_self_ownership [of "handle_B\<lparr>count_write := 1\<rparr>" undefined env0 no_files]
  by (simp add: liveness_def env0_def no_options_def handle_B_def no_files_def
        job_A_def writer_A_files_def new_RWLockfile_def fn_or_def num_or_def file_path_def
        store_defs)

section \<open>C6: backoff\<close>





section \<open>C7: the blocked hook\<close>

lemma lock_loop_fired:
  "lock_loop env h type rsn cb tmo ri True rounds fs = Some (res, effs, fs') \<Longrightarrow>
     notifications effs = []"
proof (induction rounds arbitrary: tmo ri fs res effs fs')
  case Nil
  then show ?case
    by (subst (asm) lock_loop.simps)
       (auto simp: once_def split: prod.splits option.splits error.splits if_splits)
next
  case (Cons r rounds)
  from Cons.prems show ?case
    by (subst (asm) lock_loop.simps)
       (auto simp: once_def Let_def split: prod.splits option.splits error.splits if_splits
             dest: Cons.IH)
qed

text \<open>
  C7. Whatever the rounds (the random draws and what happens to the file system during
  the sleeps), so however many attempts fail, a run of \<open>_lock\<close> that ends has called the
  hook exactly once when its first attempt was blocked, with the status of that first
  failure and right after it, and never again; it has not called the hook when the first
  attempt succeeded.
\<close>

theorem hook_fires_once:
  assumes "lock env h type opts rounds fs = Some (res, effs, fs')"
  shows "case fst (tryLock env h type (opt_reason opts) False fs) of
           None \<Rightarrow> effs = [Attempt]
         | Some (RWLockfileError status) \<Rightarrow>
             (\<exists>rest. effs = Attempt # Notified status # rest \<and> notifications rest = [])
         | Some other \<Rightarrow> effs = [Attempt]"
  using assms unfolding lock_def Let_def
  by (subst (asm) lock_loop.simps)
     (auto simp: once_def Let_def split: prod.splits option.splits error.splits if_splits list.splits
           dest: lock_loop_fired)

theorem hook_fires_once_witness:
  "lock env0 handle_B Write retry_opts [(0, \<lambda>fs. fs), (9 / 10, \<lambda>fs. no_files)] writer_A_files =
     Some (None,
           [Attempt, Notified blocked_by_A, Slept 0, Attempt, Slept 3, Attempt],
           no_files(''/tmp/x.lock'' := Some (Json
             \<lparr>d_version = ''1.4.1'',
              d_writer = Some \<lparr>d_uuid = ''B'', d_pid = 200, d_reason = None, d_created = Some 5\<rparr>,
              d_readers = []\<rparr>))) \<and>
   fst (tryLock env0 handle_B Write (opt_reason retry_opts) False writer_A_files) =
     Some (RWLockfileError blocked_by_A) \<and>
   notifications [Attempt, Notified blocked_by_A, Slept 0, Attempt, Slept 3, Attempt] =
     [blocked_by_A]"
proof -
  have run:
    "lock env0 handle_B Write retry_opts [(0, \<lambda>fs. fs), (9 / 10, \<lambda>fs. no_files)] writer_A_files =
       Some (None,
             [Attempt, Notified blocked_by_A, Slept 0, Attempt, Slept 3, Attempt],
             no_files(''/tmp/x.lock'' := Some (Json
               \<lparr>d_version = ''1.4.1'',
                d_writer = Some \<lparr>d_uuid = ''B'', d_pid = 200, d_reason = None, d_created = Some 5\<rparr>,
                d_readers = []\<rparr>)))"
    by (simp add: lock_def lock_loop.simps tryLock_def check.simps Let_def
          statusFromFile_def addJob_def once_def random_floor_def isActive_def liveness_def
          env0_def no_options_def handle_B_def no_files_def job_A_def writer_A_files_def
          blocked_by_A_def retry_opts_def new_RWLockfile_def fn_or_def num_or_def
          file_path_def store_defs)
  have first:
    "fst (tryLock env0 handle_B Write (opt_reason retry_opts) False writer_A_files) =
       Some (RWLockfileError blocked_by_A)"
    by (simp add: tryLock_def check.simps Let_def statusFromFile_def isActive_def
          liveness_def env0_def no_options_def handle_B_def no_files_def job_A_def
          writer_A_files_def blocked_by_A_def retry_opts_def new_RWLockfile_def fn_or_def
          num_or_def file_path_def store_defs)
  from hook_fires_once [OF run] first run show ?thesis
    by simp
qed

section \<open>C8: write requests against readers\<close>

text \<open>
  C8, as the claim states it, fails: a handle that counts a write lock of its own is
  answered Open before the record is looked at, also when the record has no writer and a
  live reader of another handle. Here \<open>handle_C\<close> takes the write lock; \<open>handle_B\<close>, for
  which the liveness test of process 7 throws, reclaims it, takes it and unlocks;
  \<open>handle_A\<close> takes a read lock; and \<open>check('write')\<close> by \<open>handle_C\<close>, which still counts
  its write lock, answers Open.
\<close>

theorem write_request_self_owned_counterexample:
  "map_option survey
     (run env0 three_handles
        [(''C'', Add Write no_wait []), (''B'', Add Write no_wait []), (''B'', Unlock None),
         (''A'', Add Read no_wait [])]) =
     Some (reader_A_files, Some (handle_C\<lparr>count_write := 1\<rparr>)) \<and>
   writer (fetchFile env0 (handle_C\<lparr>count_write := 1\<rparr>) reader_A_files) = None \<and>
   alive_readers env0 (readers (fetchFile env0 (handle_C\<lparr>count_write := 1\<rparr>) reader_A_files)) =
     [job_A] \<and>
   uuid job_A \<noteq> this_uuid (handle_C\<lparr>count_write := 1\<rparr>) \<and>
   check env0 (handle_C\<lparr>count_write := 1\<rparr>) Write reader_A_files =
     (Open ''/tmp/x.lock'', reader_A_files)"
  by (simp add: alive_readers_def liveness_def env0_def no_options_def handle_A_def
        handle_B_def handle_C_def no_files_def reader_A_files_def job_A_def retry_opts_def
        no_wait_def three_handles_def survey_def new_RWLockfile_def fn_or_def num_or_def
        file_path_def perform_def undisturbed_def call_defs store_defs)

text \<open>
  The asynchronous purge filters the process ids by truthiness, so it never purges a
  reader whose process id is 0: \<open>check\<close> names such a reader of a dead process as a
  blocker, where \<open>checkSync\<close> purges it and answers Open.
\<close>

lemma check_keeps_dead_reader_of_pid_0:
  "\<not> isActive env0 (pid job_Z) \<and>
   check env0 handle_B Write pid_0_reader_files =
     (Read_lock [job_Z] ''/tmp/x.lock'', pid_0_reader_files) \<and>
   checkSync env0 handle_B Write pid_0_reader_files = (Inr (Open ''/tmp/x.lock''), no_files)"
  by (simp add: check.simps checkSync.simps fetchFileSync_eq writeFileSync_eq
        statusFromFile_def isActive_def isActiveSync_def inactive_pids_def
        inactive_pidsSync_def truthy_pid_def Let_def liveness_def env0_def no_options_def
        handle_B_def no_files_def job_Z_def pid_0_reader_files_def new_RWLockfile_def
        fn_or_def num_or_def file_path_def store_defs)

text \<open>
  C8, amended. For a write request by a handle whose own \<open>localCount.write\<close> is 0, on a
  record with no writer: \<open>checkSync\<close> answers Open if every reader of a live process has
  the handle's own identifier (in particular if there is none), and otherwise
  \<open>read_lock\<close> naming exactly the readers of live processes, which are the readers of the
  record it leaves. The same holds of \<open>check\<close> when no reader has the process id 0.
\<close>

theorem write_request_on_readers:
  assumes "count h Write = 0" and "writer (fetchFile env h fs) = None"
  shows
    "fst (checkSync env h Write fs) =
       Inr (write_verdict h (alive_readersSync env (readers (fetchFile env h fs)))) \<and>
     readers (fetchFile env h (snd (checkSync env h Write fs))) =
       alive_readersSync env (readers (fetchFile env h fs)) \<and>
     ((\<forall>j \<in> set (readers (fetchFile env h fs)). pid j \<noteq> 0) \<longrightarrow>
        fst (check env h Write fs) =
          write_verdict h (alive_readers env (readers (fetchFile env h fs))) \<and>
        readers (fetchFile env h (snd (check env h Write fs))) =
          alive_readers env (readers (fetchFile env h fs)))"
proof (intro conjI impI)
  show "fst (checkSync env h Write fs) =
       Inr (write_verdict h (alive_readersSync env (readers (fetchFile env h fs))))"
    by (simp add: checkSync_Write_no_writer [OF assms])
  show "readers (fetchFile env h (snd (checkSync env h Write fs))) =
       alive_readersSync env (readers (fetchFile env h fs))"
    by (simp add: checkSync_Write_no_writer [OF assms] fetch_write alive_readersSync_id)
next
  assume nz: "\<forall>j \<in> set (readers (fetchFile env h fs)). pid j \<noteq> 0"
  then have k: "kept_readers env (readers (fetchFile env h fs)) =
      alive_readers env (readers (fetchFile env h fs))"
    by (rule kept_readers_alive)
  show "fst (check env h Write fs) =
          write_verdict h (alive_readers env (readers (fetchFile env h fs)))"
    by (simp add: check_Write_no_writer [OF assms] k)
  show "readers (fetchFile env h (snd (check env h Write fs))) =
          alive_readers env (readers (fetchFile env h fs))"
    using kept_readers_id [of env "readers (fetchFile env h fs)"]
    by (simp add: check_Write_no_writer [OF assms] k fetch_write)
qed

theorem write_request_on_readers_witness:
  "count handle_B Write = 0 \<and>
   writer (fetchFile env0 handle_B two_readers_files) = None \<and>
   readers (fetchFile env0 handle_B two_readers_files) = [job_D, job_A] \<and>
   list_all (\<lambda>j. pid j \<noteq> 0) (readers (fetchFile env0 handle_B two_readers_files)) \<and>
   fst (check env0 handle_B Write two_readers_files) = Read_lock [job_A] ''/tmp/x.lock'' \<and>
   fst (checkSync env0 handle_B Write two_readers_files) = Inr (Read_lock [job_A] ''/tmp/x.lock'') \<and>
   readers (fetchFile env0 handle_B (snd (check env0 handle_B Write two_readers_files))) =
     [job_A] \<and>
   fst (check env0 handle_A Write two_readers_files) = Open ''/tmp/x.lock'' \<and>
   fst (checkSync env0 handle_A Write two_readers_files) = Inr (Open ''/tmp/x.lock'')"
  using write_request_on_readers [of handle_B env0 two_readers_files]
        write_request_on_readers [of handle_A env0 two_readers_files]
  by (simp add: write_verdict_def alive_readers_def alive_readersSync_def isActive_def
        isActiveSync_def liveness_def env0_def no_options_def handle_A_def handle_B_def
        no_files_def job_A_def job_D_def two_readers_files_def new_RWLockfile_def fn_or_def
        num_or_def file_path_def store_defs)

section \<open>C9: the record store round trip\<close>

text \<open>
  C9. Saving an empty record (no writer, no readers) deletes the record file, and does so
  without an error when the file is already absent, in \<open>writeFile\<close> and in
  \<open>writeFileSync\<close>; loading an absent file yields the empty record; so an empty record
  goes to file absence and comes back as the empty record. Saving what was just loaded
  leaves every file that a save has written (or deleted) exactly as it is, and for any
  file whatever it leaves the writer and the readers that a load reports unchanged.
\<close>

theorem empty_record_round_trip:
  "writeFile h \<lparr>version = v, writer = None, readers = []\<rparr> fs = fs(file_path h := None) \<and>
   writeFileSync h \<lparr>version = v, writer = None, readers = []\<rparr> fs =
     Inr (fs(file_path h := None)) \<and>
   writeFile h \<lparr>version = v, writer = None, readers = []\<rparr> (fs(file_path h := None)) =
     fs(file_path h := None) \<and>
   writeFileSync h \<lparr>version = v, writer = None, readers = []\<rparr> (fs(file_path h := None)) =
     Inr (fs(file_path h := None)) \<and>
   fetchFile env h (fs(file_path h := None)) =
     \<lparr>version = pkg_version env, writer = None, readers = []\<rparr> \<and>
   fetchFileSync env h (fs(file_path h := None)) =
     \<lparr>version = pkg_version env, writer = None, readers = []\<rparr> \<and>
   fetchFile env h (writeFile h \<lparr>version = v, writer = None, readers = []\<rparr> fs) =
     \<lparr>version = pkg_version env, writer = None, readers = []\<rparr> \<and>
   writeFile h (fetchFile env h (writeFile h f fs)) (writeFile h f fs) = writeFile h f fs \<and>
   writeFileSync h (fetchFileSync env h (writeFile h f fs)) (writeFile h f fs) =
     Inr (writeFile h f fs) \<and>
   writer (fetchFile env h (writeFile h (fetchFile env h fs) fs)) = writer (fetchFile env h fs) \<and>
   readers (fetchFile env h (writeFile h (fetchFile env h fs) fs)) = readers (fetchFile env h fs)"
proof (intro conjI)
  show "writeFile h (fetchFile env h (writeFile h f fs)) (writeFile h f fs) = writeFile h f fs"
    by (simp add: fetch_write)
       (simp add: writeFile_def remove_file_def outputJSON_def)
  then show "writeFileSync h (fetchFileSync env h (writeFile h f fs)) (writeFile h f fs) =
      Inr (writeFile h f fs)"
    by (simp add: writeFileSync_eq fetchFileSync_eq)
qed (simp_all add: writeFileSync_eq fetchFileSync_eq fetch_write,
     simp_all add: writeFile_def remove_file_def fetchFile_def readJSON_def)

section \<open>C10: zero options\<close>


end
